theory Spec2Isabelle
  imports Complex_Main "HOL-Library.Multiset"
begin

section \<open>Conventions of the embedding\<close>

text \<open>
  The development embeds the queue, history, scoring and scheduler code of
  \<^verbatim>\<open>src/stream_cli\<close> (\<^verbatim>\<open>discovery.py\<close>, \<^verbatim>\<open>smart_queue.py\<close>,
  \<^verbatim>\<open>auto_discovery.py\<close>).

  \<^item> Python \<^verbatim>\<open>float\<close> scores and clock readings are modelled as \<^typ>\<open>real\<close>: the
    arithmetic is exact, rounding of IEEE doubles is not modelled.
  \<^item> Python \<^verbatim>\<open>str\<close> is \<^typ>\<open>string\<close>; truthiness of a string is non-emptiness.
  \<^item> A dictionary key that may be absent (\<^verbatim>\<open>track.get("id")\<close>) is an \<^typ>\<open>'a option\<close>.
  \<^item> Mutation of \<^verbatim>\<open>self\<close> is explicit state passing; a raise is the \<open>Inl\<close> branch
    of a sum.
\<close>

section \<open>discovery.py: string similarity\<close>

text \<open>
  \<^verbatim>\<open>get_bigrams(s) = set(s[i:i+2] for i in range(len(s)-1))\<close>
\<close>

definition get_bigrams :: "string \<Rightarrow> string set" where
  "get_bigrams s = set (map (\<lambda>i. take 2 (drop i s)) [0..<length s - 1])"

text \<open>
  \<^verbatim>\<open>MusicMetadata._string_similarity\<close>: the first guard returns 0.0 as soon as
  one of the two strings is empty; the Jaccard index of the bigram sets follows.
  The final \<^verbatim>\<open>if union > 0 else 0.0\<close> is kept as written.
\<close>

definition string_similarity :: "string \<Rightarrow> string \<Rightarrow> real" where
  "string_similarity s1 s2 =
     (if s1 = [] \<or> s2 = [] then 0
      else
        let bigrams1 = get_bigrams s1; bigrams2 = get_bigrams s2 in
        if bigrams1 = {} \<and> bigrams2 = {} then 1
        else if bigrams1 = {} \<or> bigrams2 = {} then 0
        else
          let intersection = card (bigrams1 \<inter> bigrams2);
              union = card (bigrams1 \<union> bigrams2)
          in if union > 0 then real intersection / real union else 0)"

section \<open>discovery.py: the quality scorer\<close>

text \<open>Python's substring test \<^verbatim>\<open>p in s\<close> on strings.\<close>

fun starts_with :: "string \<Rightarrow> string \<Rightarrow> bool" where
  "starts_with [] s = True"
| "starts_with (p # ps) [] = False"
| "starts_with (p # ps) (c # cs) = (p = c \<and> starts_with ps cs)"

fun contains_str :: "string \<Rightarrow> string \<Rightarrow> bool" where
  "contains_str p [] = (p = [])"
| "contains_str p (c # cs) = (starts_with p (c # cs) \<or> contains_str p cs)"

text \<open>
  The two pattern tables of \<^verbatim>\<open>TrackQualityFilter\<close>. A pattern is kept as a name
  for its regular expression (in table order); the regular-expression engine
  \<^verbatim>\<open>re.search\<close> is a library function and enters the scorer as the parameter
  \<open>re_search\<close>, so every statement about the scorer holds for any matching
  behaviour of the engine. The names stand for, in order:
  \<^verbatim>\<open>#shorts?\b\<close>, \<^verbatim>\<open>\bshort\b\<close>, \<^verbatim>\<open>\bstatus\b\<close>, \<^verbatim>\<open>\bmeme\b\<close>, \<^verbatim>\<open>\breaction\b\<close>,
  \<^verbatim>\<open>\breview\b\<close>, \<^verbatim>\<open>\bcompilation\b\<close>, \<^verbatim>\<open>\bmix\b(?!.*album)\<close>, \<^verbatim>\<open>\bremix\b(?=.*\d+)\<close>,
  \<^verbatim>\<open>\bbeat\b(?=.*\d+)\<close>, \<^verbatim>\<open>\binstrumental\b(?=.*\d+)\<close>, \<^verbatim>\<open>\bkaraoke\b\<close>,
  \<^verbatim>\<open>\bcover\b(?=.*\d+)\<close>, \<^verbatim>\<open>\blive\b(?=.*\d+)\<close>, \<^verbatim>\<open>\bconcert\b(?=.*\d+)\<close>,
  \<^verbatim>\<open>\btutorial\b\<close>, \<^verbatim>\<open>\bhow\s+to\b\<close>, \<^verbatim>\<open>\blyrics?\s+video\b\<close>, \<^verbatim>\<open>\bfan\s+made\b\<close> (low
  quality); \<^verbatim>\<open>\bofficial\b\<close>, \<^verbatim>\<open>\boriginal\b\<close>, \<^verbatim>\<open>\balbum\b\<close>,
  \<^verbatim>\<open>\bstudio\b(?=.*version)\<close>, \<^verbatim>\<open>\bfull\s+song\b\<close>, \<^verbatim>\<open>\bcomplete\b\<close>, \<^verbatim>\<open>\bdeluxe\b\<close>,
  \<^verbatim>\<open>\bremastered\b\<close> (high quality).
\<close>

datatype pattern =
    P_hash_shorts | P_short | P_status | P_meme | P_reaction | P_review
  | P_compilation | P_mix_not_album | P_remix_num | P_beat_num
  | P_instrumental_num | P_karaoke | P_cover_num | P_live_num | P_concert_num
  | P_tutorial | P_how_to | P_lyrics_video | P_fan_made
  | P_official | P_original | P_album | P_studio_version | P_full_song
  | P_complete | P_deluxe | P_remastered

definition LOW_QUALITY_PATTERNS :: "pattern list" where
  "LOW_QUALITY_PATTERNS =
     [P_hash_shorts, P_short, P_status, P_meme, P_reaction, P_review,
      P_compilation, P_mix_not_album, P_remix_num, P_beat_num,
      P_instrumental_num, P_karaoke, P_cover_num, P_live_num, P_concert_num,
      P_tutorial, P_how_to, P_lyrics_video, P_fan_made]"

definition HIGH_QUALITY_PATTERNS :: "pattern list" where
  "HIGH_QUALITY_PATTERNS =
     [P_official, P_original, P_album, P_studio_version, P_full_song,
      P_complete, P_deluxe, P_remastered]"

definition long_form_keywords :: "string list" where
  "long_form_keywords =
     [''sahasranamam'', ''bhajan'', ''devotional'', ''mantra'', ''chant'',
      ''classical'', ''full version'', ''complete'', ''interview'', ''talk'',
      ''lecture'', ''discussion'', ''episode'', ''audiobook'', ''documentary'',
      ''speech'']"

text \<open>
  \<^verbatim>\<open>podcast_indicators\<close> and \<^verbatim>\<open>is_long_form\<close>. \<^verbatim>\<open>duration and duration > 900\<close>
  is falsy for duration 0 and for every duration up to 900.
\<close>

definition is_long_form :: "string \<Rightarrow> string \<Rightarrow> int \<Rightarrow> bool" where
  "is_long_form title_lower channel_lower duration =
     (list_ex (\<lambda>keyword. contains_str keyword title_lower) long_form_keywords
      \<or> list_ex (\<lambda>b. b)
           [contains_str ''podcast'' channel_lower,
            contains_str ''interview'' channel_lower,
            contains_str ''talk'' channel_lower,
            contains_str ''radio'' channel_lower,
            contains_str ''show'' channel_lower,
            contains_str ''cast'' channel_lower,
            duration \<noteq> 0 \<and> duration > 900])"

text \<open>
  The duration step of \<^verbatim>\<open>score_track\<close> (lines 133-148): the amount added to the
  score. Each test is \<^verbatim>\<open>duration and ...\<close>, so it fails for duration 0; a negative
  duration is truthy and passes \<^verbatim>\<open>duration < 60\<close>.
\<close>

definition duration_adjustment :: "bool \<Rightarrow> int \<Rightarrow> real" where
  "duration_adjustment long_form duration =
     (if long_form then
        (if duration \<noteq> 0 \<and> duration \<ge> 300 then 0.2
         else if duration \<noteq> 0 \<and> 120 \<le> duration \<and> duration < 300 then 0.1
         else if duration \<noteq> 0 \<and> duration < 60 then - 0.3
         else 0)
      else
        (if duration \<noteq> 0 \<and> 120 \<le> duration \<and> duration \<le> 480 then 0.2
         else if duration \<noteq> 0 \<and> duration < 60 then - 0.3
         else if duration \<noteq> 0 \<and> duration > 600 then - 0.1
         else 0))"

text \<open>The two loops over the pattern tables (lines 151-157), run on a score.\<close>

definition title_patterns :: "(pattern \<Rightarrow> string \<Rightarrow> bool) \<Rightarrow> string \<Rightarrow> real \<Rightarrow> real" where
  "title_patterns re_search title_lower score =
     fold (\<lambda>p s. if re_search p title_lower then s + 0.15 else s) HIGH_QUALITY_PATTERNS
       (fold (\<lambda>p s. if re_search p title_lower then s - 0.15 else s) LOW_QUALITY_PATTERNS
          score)"

text \<open>The channel step (lines 160-163) and the view-count step (lines 166-170).\<close>

definition channel_adjustment :: "string \<Rightarrow> real" where
  "channel_adjustment channel_lower =
     (if list_ex (\<lambda>w. contains_str w channel_lower) [''official'', ''records'', ''music'']
      then 0.1
      else if list_ex (\<lambda>w. contains_str w channel_lower) [''compilation'', ''mix'', ''covers'']
      then - 0.1
      else 0)"

definition view_adjustment :: "int \<Rightarrow> real" where
  "view_adjustment view_count =
     (if view_count > 0 then
        (if view_count > 1000000 then 0.05
         else if view_count < 1000 then - 0.05
         else 0)
      else 0)"

text \<open>
  \<^verbatim>\<open>TrackQualityFilter.score_track\<close>: base 0.5, then the steps in source order,
  then \<^verbatim>\<open>max(0.0, min(1.0, score))\<close>. Like \<^verbatim>\<open>re.search\<close>, the library method
  \<^verbatim>\<open>str.lower()\<close> (which knows all of Unicode) enters as a parameter, \<open>lower\<close>:
  every statement about the scorer holds for any lowering of the title and the
  channel.
\<close>

definition score_track ::
  "(pattern \<Rightarrow> string \<Rightarrow> bool) \<Rightarrow> (string \<Rightarrow> string) \<Rightarrow>
   string \<Rightarrow> string \<Rightarrow> int \<Rightarrow> int \<Rightarrow> real" where
  "score_track re_search lower title channel duration view_count =
     (let score = 0.5;
          title_lower = lower title;
          channel_lower = lower channel;
          long_form = is_long_form title_lower channel_lower duration;
          score = score + duration_adjustment long_form duration;
          score = title_patterns re_search title_lower score;
          score = score + channel_adjustment channel_lower;
          score = score + view_adjustment view_count
      in max 0 (min 1 score))"

section \<open>smart_queue.py: tracks and the listening history\<close>

text \<open>
  A track is a dictionary read with \<^verbatim>\<open>track.get(key)\<close>. For \<^verbatim>\<open>id\<close> and
  \<^verbatim>\<open>metadata\<close> the value \<open>None\<close> stands for a missing key and for a key holding
  Python's \<^verbatim>\<open>None\<close> alike (the code only tests their truthiness). \<^verbatim>\<open>metadata\<close> is
  otherwise a \<^verbatim>\<open>MusicMetadata\<close> object, of whose attributes the queue and the
  history read \<^verbatim>\<open>artist\<close> only. For \<^verbatim>\<open>duration\<close> and \<^verbatim>\<open>quality_score\<close> the value
  \<open>None\<close> is the missing key, for which \<^verbatim>\<open>track.get(key, default)\<close> returns the
  default; a key that is present and holds Python's \<^verbatim>\<open>None\<close> is not represented.
\<close>

record metadata =
  artist :: string

record track =
  t_id :: "string option"
  t_title :: string
  t_duration :: "int option"
  t_quality_score :: "real option"
  t_metadata :: "metadata option"

text \<open>
  The recurring test \<^verbatim>\<open>metadata and metadata.artist\<close>: the artist, when the
  metadata is present and its artist string is non-empty.
\<close>

definition artist_of :: "track \<Rightarrow> string option" where
  "artist_of tr =
     (case t_metadata tr of
        None \<Rightarrow> None
      | Some m \<Rightarrow> if artist m = [] then None else Some (artist m))"

record track_data =
  play_count :: int
  skip_count :: int
  last_played :: int
  total_duration_played :: int
  td_title :: string
  td_artist :: string

record artist_data =
  artist_play_count :: int
  preference_score :: real

record preferences =
  preferred_duration_range :: "real \<times> real"
  skip_threshold :: real

record listening_history =
  h_tracks :: "string \<rightharpoonup> track_data"
  h_artists :: "string \<rightharpoonup> artist_data"
  h_preferences :: preferences

text \<open>
  \<^verbatim>\<open>ListeningHistory.record_play\<close>. \<open>current_time\<close> is the value of
  \<^verbatim>\<open>int(time.time())\<close>; \<^verbatim>\<open>self.save()\<close> writes files and changes nothing in memory
  (an \<^verbatim>\<open>IOError\<close> is caught inside it).
\<close>

definition record_play ::
  "int \<Rightarrow> track \<Rightarrow> int option \<Rightarrow> listening_history \<Rightarrow> listening_history" where
  "record_play current_time tr duration_played h =
     (case t_id tr of
        None \<Rightarrow> h
      | Some track_id \<Rightarrow>
          if track_id = [] then h
          else
            let art = (case t_metadata tr of None \<Rightarrow> [] | Some m \<Rightarrow> artist m);
                td0 = (case h_tracks h track_id of
                         None \<Rightarrow> \<lparr>play_count = 0, skip_count = 0, last_played = 0,
                                  total_duration_played = 0, td_title = t_title tr,
                                  td_artist = art\<rparr>
                       | Some td \<Rightarrow> td);
                td1 = td0\<lparr>play_count := play_count td0 + 1, last_played := current_time\<rparr>;
                td2 = (case duration_played of
                         None \<Rightarrow> td1
                       | Some dp \<Rightarrow>
                           if dp = 0 then td1
                           else td1\<lparr>total_duration_played := total_duration_played td1 + dp\<rparr>);
                h1 = h\<lparr>h_tracks := (h_tracks h)(track_id \<mapsto> td2)\<rparr>
            in if art = [] then h1
               else
                 let ad0 = (case h_artists h1 art of
                              None \<Rightarrow> \<lparr>artist_play_count = 0, preference_score = 0.5\<rparr>
                            | Some ad \<Rightarrow> ad);
                     ad1 = ad0\<lparr>artist_play_count := artist_play_count ad0 + 1\<rparr>;
                     current_score = preference_score ad1
                 in h1\<lparr>h_artists :=
                         (h_artists h1)(art \<mapsto> ad1\<lparr>preference_score := min 1 (current_score + 0.01)\<rparr>)\<rparr>)"

text \<open>
  \<^verbatim>\<open>ListeningHistory.record_skip\<close>. Nothing is recorded for a track that is not
  yet in \<^verbatim>\<open>history["tracks"]\<close>; the artist's score moves only when the artist is
  already in \<^verbatim>\<open>history["artists"]\<close>. \<open>skip_ratio\<close> is the local of that name:
  \<^verbatim>\<open>time_played / track_duration if track_duration > 0 else 0\<close> with
  \<^verbatim>\<open>track_duration = track.get("duration", 180)\<close>.
\<close>

definition skip_ratio :: "track \<Rightarrow> int \<Rightarrow> real" where
  "skip_ratio tr time_played =
     (let track_duration = (case t_duration tr of None \<Rightarrow> 180 | Some d \<Rightarrow> d)
      in if track_duration > 0
         then real_of_int time_played / real_of_int track_duration
         else 0)"

definition record_skip :: "track \<Rightarrow> int \<Rightarrow> listening_history \<Rightarrow> listening_history" where
  "record_skip tr time_played h =
     (case t_id tr of
        None \<Rightarrow> h
      | Some track_id \<Rightarrow>
          if track_id = [] then h
          else
            (case h_tracks h track_id of
               None \<Rightarrow> h
             | Some td \<Rightarrow>
                 let h1 = h\<lparr>h_tracks := (h_tracks h)(track_id \<mapsto> td\<lparr>skip_count := skip_count td + 1\<rparr>)\<rparr>
                 in (case artist_of tr of
                       None \<Rightarrow> h1
                     | Some art \<Rightarrow>
                         if skip_ratio tr time_played < skip_threshold (h_preferences h1)
                         then (case h_artists h1 art of
                                 None \<Rightarrow> h1
                               | Some ad \<Rightarrow>
                                   let current_score = preference_score ad
                                   in h1\<lparr>h_artists :=
                                           (h_artists h1)(art \<mapsto> ad\<lparr>preference_score := max 0 (current_score - 0.02)\<rparr>)\<rparr>)
                         else h1)))"

definition get_artist_preference :: "listening_history \<Rightarrow> string \<Rightarrow> real" where
  "get_artist_preference h art =
     (if art = [] then 0.5
      else (case h_artists h art of None \<Rightarrow> 0.5 | Some ad \<Rightarrow> preference_score ad))"

section \<open>The random source\<close>

text \<open>
  The module \<^verbatim>\<open>random\<close> is modelled by a tape of draws that the calls consume in
  order; an exhausted tape reads 0. Statements quantify over every tape, that
  is, over every outcome of the random calls.
\<close>

type_synonym rng = "nat list"

datatype py_error = IndexError | ValueError | TypeError | KeyError

definition next_draw :: "rng \<Rightarrow> nat \<times> rng" where
  "next_draw rs = (case rs of [] \<Rightarrow> (0, []) | r # rs' \<Rightarrow> (r, rs'))"

definition randbelow :: "nat \<Rightarrow> rng \<Rightarrow> nat \<times> rng" where
  "randbelow n rs = (let (r, rs') = next_draw rs in (r mod n, rs'))"

text \<open>\<^verbatim>\<open>random.random() < 0.2\<close>: one draw decides.\<close>

definition random_below_fifth :: "rng \<Rightarrow> bool \<times> rng" where
  "random_below_fifth rs = (let (r, rs') = next_draw rs in (r mod 5 = 0, rs'))"

text \<open>\<^verbatim>\<open>random.choice(seq)\<close> raises \<^verbatim>\<open>IndexError\<close> on an empty sequence.\<close>

definition random_choice :: "'a list \<Rightarrow> rng \<Rightarrow> (py_error + 'a) \<times> rng" where
  "random_choice xs rs =
     (if xs = [] then (Inl IndexError, rs)
      else let (k, rs') = randbelow (length xs) rs in (Inr (xs ! k), rs'))"

text \<open>
  \<^verbatim>\<open>random.choices(population, weights=weights)[0]\<close> raises \<^verbatim>\<open>ValueError\<close> when
  the total weight is not positive. Which element the weighted draw returns is
  left to the tape: the model allows every element of the population.
\<close>

definition random_choices :: "'a list \<Rightarrow> real list \<Rightarrow> rng \<Rightarrow> (py_error + 'a) \<times> rng" where
  "random_choices population weights rs =
     (if population = [] then (Inl IndexError, rs)
      else if sum_list weights \<le> 0 then (Inl ValueError, rs)
      else let (k, rs') = randbelow (length population) rs in (Inr (population ! k), rs'))"

text \<open>
  \<^verbatim>\<open>random.shuffle(x)\<close>:
  \<^verbatim>\<open>for i in reversed(range(1, len(x))): j = randbelow(i + 1); x[i], x[j] = x[j], x[i]\<close>.
  \<open>shuffle_loop n\<close> runs the iterations \<open>i = n, ..., 1\<close>.
\<close>

fun shuffle_loop :: "nat \<Rightarrow> 'a list \<Rightarrow> rng \<Rightarrow> 'a list \<times> rng" where
  "shuffle_loop 0 xs rs = (xs, rs)"
| "shuffle_loop (Suc i) xs rs =
     (let (j, rs') = randbelow (Suc (Suc i)) rs
      in shuffle_loop i (xs[Suc i := xs ! j, j := xs ! Suc i]) rs')"

definition random_shuffle :: "'a list \<Rightarrow> rng \<Rightarrow> 'a list \<times> rng" where
  "random_shuffle xs rs = shuffle_loop (length xs - 1) xs rs"

section \<open>smart_queue.py: the queue\<close>

text \<open>
  The state of \<^verbatim>\<open>SmartQueue\<close>. \<^verbatim>\<open>current_index\<close> starts at 0 and is only
  incremented, or decremented under a guard that makes it positive, so it is a
  natural number. \<^verbatim>\<open>last_played_track\<close> is not set by \<^verbatim>\<open>__init__\<close>: \<open>None\<close> is
  the missing attribute (the code reads it through \<^verbatim>\<open>hasattr\<close>).
\<close>

record smart_queue =
  priority_queue :: "track list"
  main_queue :: "track list"
  played_tracks :: "string set"
  current_index :: nat
  shuffle_mode :: string
  last_played_track :: "track option"

text \<open>\<^verbatim>\<open>_mark_as_played\<close>: \<^verbatim>\<open>if track.get("id"): self.played_tracks.add(track["id"])\<close>.\<close>

definition mark_as_played :: "track \<Rightarrow> smart_queue \<Rightarrow> smart_queue" where
  "mark_as_played tr q =
     (case t_id tr of
        None \<Rightarrow> q
      | Some i \<Rightarrow> if i = [] then q else q\<lparr>played_tracks := insert i (played_tracks q)\<rparr>)"

text \<open>
  \<^verbatim>\<open>[t for t in self.main_queue if t.get("id") not in self.played_tracks]\<close>: a
  track without the key has id \<^verbatim>\<open>None\<close>, which is never in the set of strings.
\<close>

definition is_available :: "smart_queue \<Rightarrow> track \<Rightarrow> bool" where
  "is_available q tr = (case t_id tr of None \<Rightarrow> True | Some i \<Rightarrow> i \<notin> played_tracks q)"

definition available_tracks :: "smart_queue \<Rightarrow> track list" where
  "available_tracks q = filter (is_available q) (main_queue q)"

definition get_next_sequential :: "smart_queue \<Rightarrow> (py_error + track option) \<times> smart_queue" where
  "get_next_sequential q =
     (if current_index q < length (main_queue q) then
        let tr = main_queue q ! current_index q;
            q1 = q\<lparr>current_index := current_index q + 1\<rparr>
        in (Inr (Some tr), mark_as_played tr q1)
      else (Inr None, q))"

definition get_next_random ::
  "rng \<Rightarrow> smart_queue \<Rightarrow> (py_error + track option) \<times> smart_queue \<times> rng" where
  "get_next_random rs q =
     (let available = available_tracks q in
      if available = [] then (Inr None, q, rs)
      else (case random_choice available rs of
              (Inl e, rs') \<Rightarrow> (Inl e, q, rs')
            | (Inr tr, rs') \<Rightarrow> (Inr (Some tr), mark_as_played tr q, rs')))"

text \<open>
  \<^verbatim>\<open>_get_next_smart\<close> scores a candidate with \<^verbatim>\<open>self.history.get_track_score(track)\<close>,
  a call on the history object handed to the constructor. What that call
  returns, or the exception it raises, enters as the parameter
  \<open>get_track_score\<close>: every statement about pulling holds for every scorer, also
  for one that raises. (\<^verbatim>\<open>ListeningHistory.get_track_score\<close> itself raises
  \<^verbatim>\<open>TypeError\<close> on a track whose \<^verbatim>\<open>duration\<close> or \<^verbatim>\<open>quality_score\<close> holds \<^verbatim>\<open>None\<close>, and
  otherwise returns a number between 0 and 1.)

  The variety penalty of lines 284-291: 0.2 off the score when the candidate
  and the last smart pick share a non-empty artist.
\<close>

definition variety_penalty :: "smart_queue \<Rightarrow> track \<Rightarrow> real \<Rightarrow> real" where
  "variety_penalty q tr score =
     (case last_played_track q of
        None \<Rightarrow> score
      | Some last_tr \<Rightarrow>
          (case (t_metadata last_tr, t_metadata tr) of
             (Some last_metadata, Some current_metadata) \<Rightarrow>
               if artist last_metadata = [] then score
               else if artist current_metadata = [] then score
               else if artist last_metadata = artist current_metadata then score - 0.2
               else score
           | _ \<Rightarrow> score))"

text \<open>
  The scoring loop of lines 279-293, \<^verbatim>\<open>for track in available: ...\<close>: the first
  candidate on which the scorer raises ends the loop and the call.
\<close>

fun score_tracks ::
  "(track \<Rightarrow> py_error + real) \<Rightarrow> smart_queue \<Rightarrow> track list \<Rightarrow>
   py_error + (track \<times> real) list" where
  "score_tracks get_track_score q [] = Inr []"
| "score_tracks get_track_score q (tr # trs) =
     (case get_track_score tr of
        Inl e \<Rightarrow> Inl e
      | Inr score \<Rightarrow>
          (case score_tracks get_track_score q trs of
             Inl e \<Rightarrow> Inl e
           | Inr scored \<Rightarrow> Inr ((tr, variety_penalty q tr score) # scored)))"

text \<open>
  The selection among the scored candidates (lines 295-307).
  \<^verbatim>\<open>sort(key=score, reverse=True)\<close> is stable: it is the stable ascending sort on
  the negated score. \<^verbatim>\<open>top_tracks[0][0]\<close> raises \<^verbatim>\<open>IndexError\<close> on an empty list.
\<close>

definition select_top :: "(track \<times> real) list \<Rightarrow> rng \<Rightarrow> (py_error + track) \<times> rng" where
  "select_top scored_tracks rs =
     (let scored_tracks = sort_key (\<lambda>p. - snd p) scored_tracks;
          top_count = max 1 (length scored_tracks div 3);
          top_tracks = take top_count scored_tracks;
          weights = map snd top_tracks
      in if sum_list weights > 0 then random_choices (map fst top_tracks) weights rs
         else (case top_tracks of
                 [] \<Rightarrow> (Inl IndexError, rs)
               | p # ps \<Rightarrow> (Inr (fst p), rs)))"

text \<open>
  \<^verbatim>\<open>_get_next_smart\<close>. Nothing is written and no random call is made before the
  scoring loop, so an exception from the scorer leaves the queue and the random
  source as they were.
\<close>

definition get_next_smart ::
  "(track \<Rightarrow> py_error + real) \<Rightarrow> rng \<Rightarrow> smart_queue \<Rightarrow>
   (py_error + track option) \<times> smart_queue \<times> rng" where
  "get_next_smart get_track_score rs q =
     (let available = available_tracks q in
      if available = [] then (Inr None, q, rs)
      else
        (case score_tracks get_track_score q available of
           Inl e \<Rightarrow> (Inl e, q, rs)
         | Inr scored_tracks \<Rightarrow>
             (case select_top scored_tracks rs of
                (Inl e, rs') \<Rightarrow> (Inl e, q, rs')
              | (Inr tr, rs') \<Rightarrow>
                  (Inr (Some tr), (mark_as_played tr q)\<lparr>last_played_track := Some tr\<rparr>, rs'))))"

definition get_next_mood_based ::
  "(track \<Rightarrow> py_error + real) \<Rightarrow> rng \<Rightarrow> smart_queue \<Rightarrow>
   (py_error + track option) \<times> smart_queue \<times> rng" where
  "get_next_mood_based get_track_score rs q =
     (if available_tracks q = [] then (Inr None, q, rs)
      else get_next_smart get_track_score rs q)"

text \<open>
  \<^verbatim>\<open>SmartQueue.get_next_track\<close>: the priority queue first (\<^verbatim>\<open>popleft\<close>), then the
  main queue under the mode; any other mode string falls through to
  \<^verbatim>\<open>return None\<close>.
\<close>

definition get_next_track ::
  "(track \<Rightarrow> py_error + real) \<Rightarrow> rng \<Rightarrow> smart_queue \<Rightarrow>
   (py_error + track option) \<times> smart_queue \<times> rng" where
  "get_next_track get_track_score rs q =
     (case priority_queue q of
        tr # rest \<Rightarrow> (Inr (Some tr), mark_as_played tr (q\<lparr>priority_queue := rest\<rparr>), rs)
      | [] \<Rightarrow>
          if shuffle_mode q = ''sequential'' then
            (let (r, q') = get_next_sequential q in (r, q', rs))
          else if shuffle_mode q = ''random'' then get_next_random rs q
          else if shuffle_mode q = ''smart'' then get_next_smart get_track_score rs q
          else if shuffle_mode q = ''mood'' then get_next_mood_based get_track_score rs q
          else (Inr None, q, rs))"

text \<open>
  An entry is eligible when \<^verbatim>\<open>get_next_track\<close> has something to look at: a
  priority entry, or, in the main queue, the entry under the cursor
  (sequential) or an entry not yet played (random, smart, mood).
\<close>

definition has_eligible :: "smart_queue \<Rightarrow> bool" where
  "has_eligible q =
     (if priority_queue q = [] then
        (if shuffle_mode q = ''sequential'' then current_index q < length (main_queue q)
         else if shuffle_mode q \<in> {''random'', ''smart'', ''mood''} then available_tracks q \<noteq> []
         else False)
      else True)"

subsection \<open>The smart reshuffle\<close>

text \<open>
  \<^verbatim>\<open>artist_groups[metadata.artist].append(track)\<close> on a \<^verbatim>\<open>defaultdict(list)\<close>: the
  dictionary keeps its keys in insertion order, which \<^verbatim>\<open>random.choice\<close> over its
  keys depends on, so it is an association list with one entry per key.
\<close>

fun group_add :: "string \<Rightarrow> track \<Rightarrow> (string \<times> track list) list \<Rightarrow> (string \<times> track list) list" where
  "group_add a tr [] = [(a, [tr])]"
| "group_add a tr ((b, ts) # gs) =
     (if a = b then (b, ts @ [tr]) # gs else (b, ts) # group_add a tr gs)"

definition group_tracks :: "track list \<Rightarrow> (string \<times> track list) list \<times> track list" where
  "group_tracks main =
     fold (\<lambda>tr (artist_groups, no_artist).
             case artist_of tr of
               Some a \<Rightarrow> (group_add a tr artist_groups, no_artist)
             | None \<Rightarrow> (artist_groups, no_artist @ [tr]))
          main ([], [])"

text \<open>The loop that shuffles each artist's deque, in dictionary order.\<close>

fun shuffle_groups ::
  "(string \<times> track list) list \<Rightarrow> rng \<Rightarrow> (string \<times> track list) list \<times> rng" where
  "shuffle_groups [] rs = ([], rs)"
| "shuffle_groups ((a, ts) # gs) rs =
     (let (ts', rs1) = random_shuffle ts rs;
          (gs', rs2) = shuffle_groups gs rs1
      in ((a, ts') # gs', rs2))"

text \<open>
  The first half of the body of the interleaving loop (lines 365-374): pick an
  artist among those whose deque is non-empty, pop its head onto \<open>shuffled\<close>, and
  delete the artist's entry when its deque is now empty. The chosen artist is a
  key of the dictionary and its deque is non-empty by the filter, so the lookup
  and \<^verbatim>\<open>popleft\<close> cannot raise; the last branch of the case below is never taken.
\<close>

definition take_from_artist ::
  "(string \<times> track list) list \<Rightarrow> track list \<Rightarrow> rng \<Rightarrow>
   (string \<times> track list) list \<times> track list \<times> rng" where
  "take_from_artist artist_queues shuffled rs =
     (if artist_queues = [] then (artist_queues, shuffled, rs)
      else
        let artists_with_tracks = map fst (filter (\<lambda>(a, dq). dq \<noteq> []) artist_queues) in
        if artists_with_tracks = [] then (artist_queues, shuffled, rs)
        else
          let (k, rs') = randbelow (length artists_with_tracks) rs;
              chosen_artist = artists_with_tracks ! k
          in (case map_of artist_queues chosen_artist of
                Some (tr # rest) \<Rightarrow>
                  (if rest = []
                   then filter (\<lambda>(a, dq). a \<noteq> chosen_artist) artist_queues
                   else map (\<lambda>(a, dq). if a = chosen_artist then (a, rest) else (a, dq)) artist_queues,
                   shuffled @ [tr], rs')
              | _ \<Rightarrow> (artist_queues, shuffled, rs')))"

text \<open>
  The second half (lines 377-378):
  \<^verbatim>\<open>if no_artist and (not artist_queues or random.random() < 0.2): shuffled.append(no_artist.pop())\<close>.
  \<^verbatim>\<open>random.random()\<close> is only called when both lists are non-empty; \<^verbatim>\<open>pop()\<close> takes
  the last element.
\<close>

definition take_no_artist ::
  "(string \<times> track list) list \<Rightarrow> track list \<Rightarrow> track list \<Rightarrow> rng \<Rightarrow>
   track list \<times> track list \<times> rng" where
  "take_no_artist artist_queues no_artist shuffled rs =
     (if no_artist = [] then (no_artist, shuffled, rs)
      else if artist_queues = [] then (butlast no_artist, shuffled @ [last no_artist], rs)
      else
        let (b, rs') = random_below_fifth rs in
        if b then (butlast no_artist, shuffled @ [last no_artist], rs')
        else (no_artist, shuffled, rs'))"

text \<open>
  \<^verbatim>\<open>while artist_queues or no_artist: ...\<close>. The loop is written as it stands, so
  not returning is the value \<open>None\<close>.
\<close>

partial_function (option) interleave ::
  "(string \<times> track list) list \<Rightarrow> track list \<Rightarrow> track list \<Rightarrow> rng \<Rightarrow>
   (track list \<times> rng) option" where
  "interleave artist_queues no_artist shuffled rs =
     (if artist_queues = [] \<and> no_artist = [] then Some (shuffled, rs)
      else
        (case take_from_artist artist_queues shuffled rs of
           (artist_queues1, shuffled1, rs1) \<Rightarrow>
             (case take_no_artist artist_queues1 no_artist shuffled1 rs1 of
                (no_artist2, shuffled2, rs2) \<Rightarrow>
                  interleave artist_queues1 no_artist2 shuffled2 rs2)))"

declare interleave.simps [code]

text \<open>\<^verbatim>\<open>SmartQueue._smart_shuffle\<close>; only \<^verbatim>\<open>self.main_queue\<close> is assigned.\<close>

definition smart_shuffle :: "rng \<Rightarrow> smart_queue \<Rightarrow> (smart_queue \<times> rng) option" where
  "smart_shuffle rs q =
     (if length (main_queue q) < 3 then Some (q, rs)
      else
        let (artist_groups, no_artist) = group_tracks (main_queue q);
            (artist_queues, rs1) = shuffle_groups artist_groups rs
        in (case interleave artist_queues no_artist [] rs1 of
              None \<Rightarrow> None
            | Some (shuffled, rs2) \<Rightarrow> Some (q\<lparr>main_queue := shuffled\<rparr>, rs2)))"

definition reorganize_queue :: "rng \<Rightarrow> smart_queue \<Rightarrow> (smart_queue \<times> rng) option" where
  "reorganize_queue rs q =
     (if shuffle_mode q = ''smart'' then smart_shuffle rs q else Some (q, rs))"

text \<open>\<^verbatim>\<open>SmartQueue.add_tracks\<close>: extend one tier, then reorganize.\<close>

definition add_tracks :: "rng \<Rightarrow> track list \<Rightarrow> bool \<Rightarrow> smart_queue \<Rightarrow> (smart_queue \<times> rng) option" where
  "add_tracks rs new_tracks priority q =
     reorganize_queue rs
       (if priority then q\<lparr>priority_queue := priority_queue q @ new_tracks\<rparr>
        else q\<lparr>main_queue := main_queue q @ new_tracks\<rparr>)"

text \<open>
  \<^verbatim>\<open>SmartQueue.set_shuffle_mode\<close>. The function has no \<^verbatim>\<open>raise\<close> and no return
  value: a mode outside the list skips the body.
\<close>

definition set_shuffle_mode :: "rng \<Rightarrow> string \<Rightarrow> smart_queue \<Rightarrow> (smart_queue \<times> rng) option" where
  "set_shuffle_mode rs mode q =
     (if mode \<in> {''smart'', ''random'', ''sequential'', ''mood''} then
        let q1 = q\<lparr>shuffle_mode := mode\<rparr> in
        if mode \<in> {''smart'', ''random''} then reorganize_queue rs q1 else Some (q1, rs)
      else Some (q, rs))"

subsection \<open>Removal and repositioning\<close>

text \<open>
  The first index whose track has the given id
  (\<^verbatim>\<open>for i, track in enumerate(...): if track.get("id") == track_id\<close>).
\<close>

fun find_track :: "string \<Rightarrow> track list \<Rightarrow> nat option" where
  "find_track track_id [] = None"
| "find_track track_id (tr # trs) =
     (if t_id tr = Some track_id then Some 0
      else map_option Suc (find_track track_id trs))"

text \<open>\<^verbatim>\<open>del xs[i]\<close> and \<^verbatim>\<open>xs.insert(i, x)\<close> for an index within range.\<close>

definition delete_at :: "nat \<Rightarrow> 'a list \<Rightarrow> 'a list" where
  "delete_at i xs = take i xs @ drop (Suc i) xs"

definition insert_at :: "nat \<Rightarrow> 'a \<Rightarrow> 'a list \<Rightarrow> 'a list" where
  "insert_at i x xs = take i xs @ x # drop i xs"

definition remove_track :: "string \<Rightarrow> smart_queue \<Rightarrow> bool \<times> smart_queue" where
  "remove_track track_id q =
     (case find_track track_id (priority_queue q) of
        Some i \<Rightarrow> (True, q\<lparr>priority_queue := delete_at i (priority_queue q)\<rparr>)
      | None \<Rightarrow>
          (case find_track track_id (main_queue q) of
             Some i \<Rightarrow>
               (True,
                q\<lparr>main_queue := delete_at i (main_queue q),
                  current_index := (if i < current_index q then current_index q - 1
                                    else current_index q)\<rparr>)
           | None \<Rightarrow> (False, q)))"

text \<open>
  \<^verbatim>\<open>SmartQueue.move_track\<close>; \<open>new_position\<close> is any Python integer, clamped by
  \<^verbatim>\<open>max(0, min(new_position, len(self.main_queue)))\<close> after the deletion.
\<close>

definition move_track :: "string \<Rightarrow> int \<Rightarrow> smart_queue \<Rightarrow> bool \<times> smart_queue" where
  "move_track track_id new_position q =
     (case find_track track_id (main_queue q) of
        None \<Rightarrow> (False, q)
      | Some old_index \<Rightarrow>
          let tr = main_queue q ! old_index;
              main1 = delete_at old_index (main_queue q);
              index1 = (if old_index < current_index q then current_index q - 1
                        else current_index q);
              new_pos = nat (max 0 (min new_position (int (length main1))));
              main2 = insert_at new_pos tr main1;
              index2 = (if new_pos \<le> index1 then index1 + 1 else index1)
          in (True, q\<lparr>main_queue := main2, current_index := index2\<rparr>))"

section \<open>auto_discovery.py: the discovery scheduler\<close>

text \<open>
  The state of \<^verbatim>\<open>BackgroundDiscovery\<close> that the modelled methods read or write.
  \<^verbatim>\<open>discovery_queue\<close> is the content of \<^verbatim>\<open>queue.Queue(maxsize=3)\<close>, oldest entry
  first; \<^verbatim>\<open>seed_tracks\<close> is a \<^verbatim>\<open>deque(maxlen=5)\<close>; \<^verbatim>\<open>artist_exploration_depth\<close> is a
  dictionary in insertion order.
\<close>

record discovery =
  target_queue_size :: int
  discovery_batch_size :: int
  discovery_queue :: "string list"
  is_running :: bool
  seed_tracks :: "track list"
  discovered_artists :: "string set"
  last_discovery_time :: real
  min_discovery_interval :: real
  artist_exploration_depth :: "(string \<times> int) list"

definition discovery_queue_maxsize :: nat where
  "discovery_queue_maxsize = 3"

text \<open>
  \<^verbatim>\<open>_trigger_discovery\<close>; \<open>current_time\<close> is the reading of \<^verbatim>\<open>time.time()\<close>. The
  time stamp is written before the \<^verbatim>\<open>put\<close>. \<^verbatim>\<open>put(reason, timeout=0.1)\<close> on a full
  queue raises \<^verbatim>\<open>queue.Full\<close> when no consumer takes an entry within the timeout;
  the exception is caught and the trigger is lost. The model is sequential: no
  consumer runs during the call.
\<close>

definition trigger_discovery :: "real \<Rightarrow> string \<Rightarrow> discovery \<Rightarrow> discovery" where
  "trigger_discovery current_time reason d =
     (if current_time - last_discovery_time d < min_discovery_interval d then d
      else
        let d1 = d\<lparr>last_discovery_time := current_time\<rparr>
        in if length (discovery_queue d1) < discovery_queue_maxsize
           then d1\<lparr>discovery_queue := discovery_queue d1 @ [reason]\<rparr>
           else d1)"

text \<open>\<^verbatim>\<open>get_queue_info()['total_tracks']\<close> of the shared queue.\<close>

definition total_tracks :: "smart_queue \<Rightarrow> nat" where
  "total_tracks q = length (main_queue q) + length (priority_queue q)"


text \<open>
  \<^verbatim>\<open>_check_queue_health\<close>. The pruning sorts by depth, largest first
  (\<^verbatim>\<open>sorted(..., reverse=True)\<close> is stable), and keeps 20 entries.
\<close>

definition check_queue_health :: "real \<Rightarrow> smart_queue \<Rightarrow> discovery \<Rightarrow> discovery" where
  "check_queue_health current_time q d =
     (let d1 = (if total_tracks q < 3 then trigger_discovery current_time ''periodic_check'' d
                else d)
      in if length (artist_exploration_depth d1) > 50
         then d1\<lparr>artist_exploration_depth :=
                   take 20 (sort_key (\<lambda>p. - snd p) (artist_exploration_depth d1))\<rparr>
         else d1)"

text \<open>
  One pass through the body of the loop of \<^verbatim>\<open>_discovery_worker\<close> (lines 116-132),
  on the scheduler and the shared queue. \<^verbatim>\<open>discovery_queue.get(timeout=1)\<close> on an
  empty queue raises \<^verbatim>\<open>queue.Empty\<close>; its handler sleeps and continues. On a
  trigger the worker runs \<^verbatim>\<open>_perform_discovery(reason)\<close>, which queries the external
  search provider and is the parameter \<open>perform\<close>. The body calls nothing else:
  in particular it does not call \<^verbatim>\<open>_check_queue_health\<close>, and no other code of the
  repository does.
\<close>

definition discovery_worker_pass ::
  "(string \<Rightarrow> discovery \<times> smart_queue \<Rightarrow> discovery \<times> smart_queue) \<Rightarrow>
   discovery \<times> smart_queue \<Rightarrow> discovery \<times> smart_queue" where
  "discovery_worker_pass perform s =
     (case discovery_queue (fst s) of
        [] \<Rightarrow> s
      | reason # rest \<Rightarrow>
          let s1 = ((fst s)\<lparr>discovery_queue := rest\<rparr>, snd s)
          in if is_running (fst s1) then perform reason s1 else s1)"

text \<open>\<^verbatim>\<open>while self.is_running: ...\<close>, for at most \<open>n\<close> passes.\<close>

fun discovery_worker ::
  "(string \<Rightarrow> discovery \<times> smart_queue \<Rightarrow> discovery \<times> smart_queue) \<Rightarrow> nat \<Rightarrow>
   discovery \<times> smart_queue \<Rightarrow> discovery \<times> smart_queue" where
  "discovery_worker perform 0 s = s"
| "discovery_worker perform (Suc n) s =
     (if is_running (fst s) then discovery_worker perform n (discovery_worker_pass perform s) else s)"

text \<open>
  \<^verbatim>\<open>adjust_discovery_rate\<close>: the new state and the line it prints. An unknown rate
  matches no branch; the \<^verbatim>\<open>print\<close> after the chain runs in every case.
\<close>

definition adjust_discovery_rate :: "string \<Rightarrow> discovery \<Rightarrow> discovery \<times> string" where
  "adjust_discovery_rate rate d =
     ((if rate = ''conservative'' then
         d\<lparr>target_queue_size := 15, discovery_batch_size := 3, min_discovery_interval := 15\<rparr>
       else if rate = ''moderate'' then
         d\<lparr>target_queue_size := 30, discovery_batch_size := 5, min_discovery_interval := 10\<rparr>
       else if rate = ''aggressive'' then
         d\<lparr>target_queue_size := 50, discovery_batch_size := 8, min_discovery_interval := 5\<rparr>
       else d),
      ''Discovery rate set to '' @ rate)"

section \<open>Invariants used in the proofs\<close>

text \<open>
  The dictionary \<^verbatim>\<open>artist_queues\<close> of the reshuffle has one entry per artist and
  no empty deque (an entry is deleted as soon as its deque is empty); \<open>pool\<close> is
  the multiset of the tracks it holds.
\<close>

definition queues_ok :: "(string \<times> track list) list \<Rightarrow> bool" where
  "queues_ok aq = (distinct (map fst aq) \<and> (\<forall>p \<in> set aq. snd p \<noteq> []))"

definition pool :: "(string \<times> track list) list \<Rightarrow> track multiset" where
  "pool aq = mset (concat (map snd aq))"

section \<open>Initial states and example data\<close>

text \<open>The state set up by \<^verbatim>\<open>SmartQueue.__init__\<close>.\<close>

definition init_queue :: smart_queue where
  "init_queue =
     \<lparr>priority_queue = [], main_queue = [], played_tracks = {}, current_index = 0,
      shuffle_mode = ''smart'', last_played_track = None\<rparr>"

text \<open>
  A track as the command-line front end builds it, with the given id and artist
  (the id doubles as title).
\<close>

definition example_track :: "string \<Rightarrow> string \<Rightarrow> track" where
  "example_track i a =
     \<lparr>t_id = Some i, t_title = i, t_duration = Some 200, t_quality_score = Some 0.5,
      t_metadata = Some \<lparr>artist = a\<rparr>\<rparr>"

text \<open>
  The history and preferences that \<^verbatim>\<open>_load_history\<close> and \<^verbatim>\<open>_load_preferences\<close>
  return when no file exists.
\<close>

definition init_history :: listening_history where
  "init_history =
     \<lparr>h_tracks = Map.empty, h_artists = Map.empty,
      h_preferences = \<lparr>preferred_duration_range = (120, 360), skip_threshold = 0.3\<rparr>\<rparr>"

text \<open>A sequential queue of three tracks with the cursor on the second.\<close>

definition example_queue :: smart_queue where
  "example_queue =
     init_queue\<lparr>main_queue := [example_track ''a'' ''X'', example_track ''b'' ''Y'',
                               example_track ''c'' ''Z''],
                current_index := 1, shuffle_mode := ''sequential''\<rparr>"

text \<open>
  A scorer that returns 0.6 for every track, as \<^verbatim>\<open>ListeningHistory.get_track_score\<close>
  does on the fresh history for the example tracks (0.5 as the mean of the
  quality 0.5 and the default preference 0.5, plus 0.1 for a duration of 200
  seconds inside the preferred range).
\<close>

definition example_scorer :: "track \<Rightarrow> py_error + real" where
  "example_scorer tr = Inr 0.6"

text \<open>
  A smart-mode queue holding one main-queue track, and one holding a single
  priority track whose id is the empty string.
\<close>

definition single_track_queue :: smart_queue where
  "single_track_queue = init_queue\<lparr>main_queue := [example_track ''a'' ''X'']\<rparr>"

definition priority_example_queue :: smart_queue where
  "priority_example_queue = init_queue\<lparr>priority_queue := [example_track [] ''X'']\<rparr>"

text \<open>
  The history after one play of track a of artist X on the fresh history (the
  artist's preference is then 0.51), and that history as 26 early skips of the
  track leave it: 26 skips counted, the preference at the lower clamp 0.
\<close>

definition played_history :: listening_history where
  "played_history = record_play 0 (example_track ''a'' ''X'') None init_history"

definition floor_history :: listening_history where
  "floor_history =
     init_history
       \<lparr>h_tracks := [''a'' \<mapsto> \<lparr>play_count = 1, skip_count = 26, last_played = 0,
                                total_duration_played = 0, td_title = ''a'', td_artist = ''X''\<rparr>],
        h_artists := [''X'' \<mapsto> \<lparr>artist_play_count = 1, preference_score = 0\<rparr>]\<rparr>"

text \<open>The state set up by \<^verbatim>\<open>BackgroundDiscovery.__init__\<close>, and the same after \<^verbatim>\<open>start()\<close>.\<close>

definition init_discovery :: discovery where
  "init_discovery =
     \<lparr>target_queue_size = 30, discovery_batch_size = 5, discovery_queue = [],
      is_running = False, seed_tracks = [], discovered_artists = {},
      last_discovery_time = 0, min_discovery_interval = 10,
      artist_exploration_depth = []\<rparr>"

definition started_discovery :: discovery where
  "started_discovery = init_discovery\<lparr>is_running := True\<rparr>"

text \<open>
  A track without metadata, and a smart-mode queue of four tracks: two of
  artist X, one of artist Y, one without artist.
\<close>

definition anonymous_track :: "string \<Rightarrow> track" where
  "anonymous_track i =
     \<lparr>t_id = Some i, t_title = i, t_duration = Some 200, t_quality_score = Some 0.5,
      t_metadata = None\<rparr>"

definition shuffle_example_queue :: smart_queue where
  "shuffle_example_queue =
     init_queue\<lparr>main_queue := [example_track ''a'' ''X'', example_track ''b'' ''Y'',
                               example_track ''c'' ''X'', anonymous_track ''d'']\<rparr>"

section \<open>Properties of the string similarity\<close>

lemma get_bigrams_nonempty: "2 \<le> length s \<Longrightarrow> get_bigrams s \<noteq> {}"
  by (cases s) (auto simp: get_bigrams_def)

lemma finite_get_bigrams: "finite (get_bigrams s)"
  by (simp add: get_bigrams_def)

lemma string_similarity_commute: "string_similarity a b = string_similarity b a"
  by (auto simp: string_similarity_def Let_def Int_commute Un_commute)

lemma string_similarity_self:
  assumes "a \<noteq> []"
  shows "string_similarity a a = 1"
proof (cases "get_bigrams a = {}")
  case True
  with assms show ?thesis by (simp add: string_similarity_def)
next
  case False
  then have "card (get_bigrams a) > 0"
    by (simp add: card_gt_0_iff finite_get_bigrams)
  with assms False show ?thesis by (simp add: string_similarity_def)
qed

text \<open>
  C5, as the code has it. The similarity is symmetric; a non-empty string has
  similarity 1 with itself; an empty string has similarity 0 with every string,
  the empty one included (the first guard of the function returns 0.0 whenever
  one of the arguments is empty, so it never reaches the "no bigrams on both
  sides" case for two empty strings).
\<close>

theorem string_similarity_props:
  "string_similarity a b = string_similarity b a
   \<and> (if a = [] then string_similarity a a = 0 else string_similarity a a = 1)
   \<and> string_similarity [] b = 0
   \<and> string_similarity b [] = 0"
  using string_similarity_commute [of a b] string_similarity_self [of a]
  by (simp add: string_similarity_def)

theorem string_similarity_props_witness:
  "string_similarity ''abc'' ''bcd'' = string_similarity ''bcd'' ''abc''
   \<and> string_similarity ''abc'' ''abc'' = 1
   \<and> string_similarity [] ''bcd'' = 0
   \<and> string_similarity ''bcd'' [] = 0"
  using string_similarity_props [of "''abc''" "''bcd''"] by simp

text \<open>
  C5 as stated asks for similarity 1.0 between two empty strings; the function
  returns 0.0 there.
\<close>

theorem string_similarity_empty_counterexample:
  "string_similarity [] [] \<noteq> 1"
  by (simp add: string_similarity_def)

section \<open>Properties of the quality scorer\<close>

lemma is_long_form_nonpositive:
  "d \<le> 0 \<Longrightarrow> is_long_form t c d = is_long_form t c 0"
  by (simp add: is_long_form_def)

lemma duration_adjustment_zero: "duration_adjustment lf 0 = 0"
  by (simp add: duration_adjustment_def)

lemma duration_adjustment_negative: "d < 0 \<Longrightarrow> duration_adjustment lf d = - 0.3"
  by (simp add: duration_adjustment_def)

text \<open>
  C6. The scorer is a total function of its four arguments (the model has no
  error branch because the source has no raising operation on strings and
  integers), and its result lies in the closed interval from 0 to 1 for every
  title, channel, duration (zero and negative included) and view count,
  whatever \<^verbatim>\<open>re.search\<close> matches and whatever \<^verbatim>\<open>str.lower()\<close> returns.
\<close>

theorem score_track_range:
  "0 \<le> score_track re_search lower title channel duration view_count
   \<and> score_track re_search lower title channel duration view_count \<le> 1"
  by (simp add: score_track_def Let_def)

theorem score_track_range_witness:
  "0 \<le> score_track (\<lambda>p s. False) (\<lambda>s. s) [] [] (- 7) 0
   \<and> score_track (\<lambda>p s. False) (\<lambda>s. s) [] [] (- 7) 0 \<le> 1"
  by (rule score_track_range)

text \<open>
  C7, as the code has it. Duration 0 is treated as unknown: the duration step
  adds nothing, so the score is the clamped sum of the base 0.5 and the title,
  channel and view-count steps. A negative duration is not treated as unknown:
  it is non-zero and below 60, so it takes the "very short" penalty of 0.3
  before the other steps and the clamp. All negative durations therefore score
  alike.
\<close>

theorem score_track_nonpositive_duration:
  assumes "d < 0" and "d' < 0"
  shows "score_track re_search lower title channel 0 view_count =
           max 0 (min 1 (title_patterns re_search (lower title) 0.5
                         + channel_adjustment (lower channel)
                         + view_adjustment view_count))
         \<and> score_track re_search lower title channel d view_count =
           max 0 (min 1 (title_patterns re_search (lower title) (0.5 - 0.3)
                         + channel_adjustment (lower channel)
                         + view_adjustment view_count))
         \<and> score_track re_search lower title channel d view_count =
           score_track re_search lower title channel d' view_count"
  using assms
  by (simp add: score_track_def Let_def duration_adjustment_zero
      duration_adjustment_negative)

theorem score_track_nonpositive_duration_witness:
  "(- 1 :: int) < 0 \<and> (- 20 :: int) < 0
   \<and> score_track (\<lambda>p s. False) (\<lambda>s. s) [] [] 0 0 =
       max 0 (min 1 (title_patterns (\<lambda>p s. False) [] 0.5
                     + channel_adjustment [] + view_adjustment 0))
   \<and> score_track (\<lambda>p s. False) (\<lambda>s. s) [] [] (- 1) 0 =
       max 0 (min 1 (title_patterns (\<lambda>p s. False) [] (0.5 - 0.3)
                     + channel_adjustment [] + view_adjustment 0))
   \<and> score_track (\<lambda>p s. False) (\<lambda>s. s) [] [] (- 1) 0 =
       score_track (\<lambda>p s. False) (\<lambda>s. s) [] [] (- 20) 0"
proof -
  have a: "(- 1 :: int) < 0" and b: "(- 20 :: int) < 0" by simp_all
  note c = score_track_nonpositive_duration
    [OF a b, of "\<lambda>p s. False" "\<lambda>s. s" "[]" "[]" 0]
  show ?thesis
    using a b c [THEN conjunct1] c [THEN conjunct2, THEN conjunct1]
      c [THEN conjunct2, THEN conjunct2]
    by (intro conjI)
qed

text \<open>
  C7 as stated asks that duration 0 and a negative duration score alike. With
  empty title and channel and no view count, duration 0 scores 0.5 and
  duration -1 scores 0.2. (On the empty string no pattern matches and every
  lowering returns the empty string.)
\<close>

theorem score_track_negative_duration_counterexample:
  "score_track (\<lambda>p s. False) (\<lambda>s. s) [] [] 0 0 = 0.5
   \<and> score_track (\<lambda>p s. False) (\<lambda>s. s) [] [] (- 1) 0 = 0.2
   \<and> score_track (\<lambda>p s. False) (\<lambda>s. s) [] [] 0 0
       \<noteq> score_track (\<lambda>p s. False) (\<lambda>s. s) [] [] (- 1) 0"
  by code_simp

section \<open>Removal and repositioning keep the cursor on its track\<close>

lemma find_track_Some:
  "find_track track_id xs = Some i \<Longrightarrow> i < length xs \<and> t_id (xs ! i) = Some track_id"
proof (induction xs arbitrary: i)
  case Nil
  then show ?case by simp
next
  case (Cons x xs)
  then show ?case by (auto split: if_splits)
qed

lemma nth_delete_at:
  "i < length xs \<Longrightarrow> j < length xs - 1 \<Longrightarrow>
   delete_at i xs ! j = (if j < i then xs ! j else xs ! Suc j)"
  by (auto simp: delete_at_def nth_append min_def)

lemma length_delete_at: "i < length xs \<Longrightarrow> length (delete_at i xs) = length xs - 1"
  by (auto simp: delete_at_def)

lemma nth_insert_at:
  "p \<le> length xs \<Longrightarrow> j \<le> length xs \<Longrightarrow>
   insert_at p x xs ! j = (if j < p then xs ! j else if j = p then x else xs ! (j - 1))"
  by (auto simp: insert_at_def nth_append nth_Cons' min_def)

lemma clamp_pos: "nat (max 0 (min p (int n))) \<le> n"
  by auto


lemma insert_at_cursor:
  "p \<le> length xs \<Longrightarrow> c < length xs \<Longrightarrow>
   insert_at p x xs ! (if p \<le> c then c + 1 else c) = xs ! c"
  by (simp add: nth_insert_at)

lemma delete_at_cursor_other:
  "i < length xs \<Longrightarrow> c < length xs \<Longrightarrow> i \<noteq> c \<Longrightarrow>
   (if i < c then c - 1 else c) < length (delete_at i xs)
   \<and> delete_at i xs ! (if i < c then c - 1 else c) = xs ! c"
proof (cases "i < c")
  case True
  assume a: "i < length xs" "c < length xs"
  from True have "\<not> c - 1 < i" "c - 1 < length xs - 1" "Suc (c - 1) = c"
    using a by arith+
  then show ?thesis using True a by (simp add: nth_delete_at length_delete_at)
next
  case False
  assume a: "i < length xs" "c < length xs" "i \<noteq> c"
  with False have "c < i" "c < length xs - 1" by arith+
  then show ?thesis using False a by (simp add: nth_delete_at length_delete_at)
qed

lemma delete_at_cursor_same:
  "Suc c < length xs \<Longrightarrow>
   c < length (delete_at c xs) \<and> delete_at c xs ! c = xs ! Suc c"
  by (simp add: nth_delete_at length_delete_at)

text \<open>
  C4, as the code has it. When \<^verbatim>\<open>remove_track\<close> removes a main-queue track (the
  id is not in the priority queue and is first found at main index \<open>i\<close>), the
  cursor is decremented exactly when \<open>i\<close> is strictly below it. When the track
  removed or moved is not the one under the cursor, the cursor denotes the same
  track after \<^verbatim>\<open>remove_track\<close> and after \<^verbatim>\<open>move_track\<close> to any target index. When
  it is the track under the cursor, the cursor does not follow it: after either
  operation the cursor denotes the track that came next in the queue.
\<close>

theorem cursor_after_remove_and_move:
  assumes nopri: "find_track track_id (priority_queue q) = None"
      and found: "find_track track_id (main_queue q) = Some i"
  shows "current_index (snd (remove_track track_id q)) =
           (if i < current_index q then current_index q - 1 else current_index q)
       \<and> (if i = current_index q then
            (if Suc (current_index q) < length (main_queue q) then
               main_queue (snd (remove_track track_id q)) ! current_index (snd (remove_track track_id q))
                 = main_queue q ! Suc (current_index q)
             \<and> main_queue (snd (move_track track_id new_position q)) ! current_index (snd (move_track track_id new_position q))
                 = main_queue q ! Suc (current_index q)
             else True)
          else if current_index q < length (main_queue q) then
               main_queue (snd (remove_track track_id q)) ! current_index (snd (remove_track track_id q))
                 = main_queue q ! current_index q
             \<and> main_queue (snd (move_track track_id new_position q)) ! current_index (snd (move_track track_id new_position q))
                 = main_queue q ! current_index q
          else True)"
proof -
  define c where "c = current_index q"
  define m where "m = main_queue q"
  define m1 where "m1 = delete_at i m"
  define c1 where "c1 = (if i < c then c - 1 else c)"
  define p where "p = nat (max 0 (min new_position (int (length m1))))"
  from found have il: "i < length m" by (simp add: find_track_Some m_def)
  have pl: "p \<le> length m1" unfolding p_def by (rule clamp_pos)
  have rm: "snd (remove_track track_id q) = q\<lparr>main_queue := m1, current_index := c1\<rparr>"
    using nopri found by (simp add: remove_track_def m1_def c1_def c_def m_def)
  have mv: "snd (move_track track_id new_position q) =
      q\<lparr>main_queue := insert_at p (m ! i) m1,
        current_index := (if p \<le> c1 then c1 + 1 else c1)\<rparr>"
    using found by (simp add: move_track_def Let_def m1_def c1_def c_def m_def p_def)
  have same: "m1 ! c1 = m ! Suc c \<and> insert_at p (m ! i) m1 ! (if p \<le> c1 then c1 + 1 else c1) = m ! Suc c"
    if "i = c" "Suc c < length m"
  proof -
    from that have "c1 = c" by (simp add: c1_def)
    moreover from that delete_at_cursor_same [of c m]
    have "c < length m1" "m1 ! c = m ! Suc c" by (simp_all add: m1_def)
    ultimately show ?thesis using insert_at_cursor [OF pl, of c1 "m ! i"] by simp
  qed
  have other: "m1 ! c1 = m ! c \<and> insert_at p (m ! i) m1 ! (if p \<le> c1 then c1 + 1 else c1) = m ! c"
    if "i \<noteq> c" "c < length m"
  proof -
    from delete_at_cursor_other [OF il that(2) that(1)]
    have "c1 < length m1" "m1 ! c1 = m ! c" by (simp_all add: m1_def c1_def)
    then show ?thesis using insert_at_cursor [OF pl, of c1 "m ! i"] by simp
  qed
  have cur: "current_index (snd (remove_track track_id q)) = c1" by (simp add: rm)
  have mr: "main_queue (snd (remove_track track_id q)) = m1" by (simp add: rm)
  have curm: "current_index (snd (move_track track_id new_position q)) = (if p \<le> c1 then c1 + 1 else c1)"
    by (simp add: mv)
  have mm: "main_queue (snd (move_track track_id new_position q)) = insert_at p (m ! i) m1"
    by (simp add: mv)
  show ?thesis
    unfolding cur mr curm mm
    unfolding c_def [symmetric] m_def [symmetric]
    using same other by (simp add: c1_def)
qed


theorem cursor_after_remove_and_move_witness:
  "find_track ''c'' (priority_queue example_queue) = None
   \<and> find_track ''c'' (main_queue example_queue) = Some 2
   \<and> current_index (snd (remove_track ''c'' example_queue)) = current_index example_queue
   \<and> main_queue (snd (remove_track ''c'' example_queue))
        ! current_index (snd (remove_track ''c'' example_queue))
       = main_queue example_queue ! current_index example_queue
   \<and> main_queue (snd (move_track ''c'' 0 example_queue))
        ! current_index (snd (move_track ''c'' 0 example_queue))
       = main_queue example_queue ! current_index example_queue"
proof -
  have a: "find_track ''c'' (priority_queue example_queue) = None" by code_simp
  have b: "find_track ''c'' (main_queue example_queue) = Some 2" by code_simp
  have c: "current_index example_queue = 1" "length (main_queue example_queue) = 3"
    by (simp_all add: example_queue_def init_queue_def)
  from cursor_after_remove_and_move [OF a b, of 0] a b c show ?thesis by auto
qed

text \<open>
  C4 as stated asks that a move to any index leaves the cursor on the track it
  denoted. In the three-track queue with the cursor on track b, moving b to
  index 0 leaves the cursor on track c.
\<close>

theorem move_track_cursor_counterexample:
  "main_queue example_queue ! current_index example_queue = example_track ''b'' ''Y''
   \<and> main_queue (snd (move_track ''b'' 0 example_queue))
        ! current_index (snd (move_track ''b'' 0 example_queue))
       = example_track ''c'' ''Z''
   \<and> main_queue (snd (move_track ''b'' 0 example_queue))
        ! current_index (snd (move_track ''b'' 0 example_queue))
       \<noteq> main_queue example_queue ! current_index example_queue"
  by code_simp

section \<open>Pulling the next track\<close>

lemma played_mark_as_played:
  "played_tracks (mark_as_played tr q) =
     (case t_id tr of None \<Rightarrow> played_tracks q
      | Some i \<Rightarrow> if i = [] then played_tracks q else insert i (played_tracks q))"
  by (simp add: mark_as_played_def split: option.splits)

lemma random_choice_nonempty:
  "xs \<noteq> [] \<Longrightarrow> \<exists>x rs'. random_choice xs rs = (Inr x, rs')"
  by (simp add: random_choice_def split: prod.splits)

lemma random_choices_positive:
  "xs \<noteq> [] \<Longrightarrow> 0 < sum_list ws \<Longrightarrow> \<exists>x rs'. random_choices xs ws rs = (Inr x, rs')"
  by (simp add: random_choices_def split: prod.splits)

lemma get_next_sequential_cases:
  "if current_index q < length (main_queue q)
   then \<exists>tr q'. get_next_sequential q = (Inr (Some tr), q')
          \<and> played_tracks q' = played_tracks (mark_as_played tr q)
   else get_next_sequential q = (Inr None, q)"
  by (simp add: get_next_sequential_def Let_def played_mark_as_played split: option.splits)

lemma get_next_random_cases:
  "if available_tracks q \<noteq> []
   then \<exists>tr q' rs'. get_next_random rs q = (Inr (Some tr), q', rs')
          \<and> played_tracks q' = played_tracks (mark_as_played tr q)
   else get_next_random rs q = (Inr None, q, rs)"
proof (cases "available_tracks q = []")
  case True
  then show ?thesis by (simp add: get_next_random_def)
next
  case False
  from random_choice_nonempty [OF False, of rs]
  obtain x rs' where "random_choice (available_tracks q) rs = (Inr x, rs')" by blast
  with False show ?thesis by (simp add: get_next_random_def)
qed

lemma score_tracks_length:
  "score_tracks f q trs = Inr scored \<Longrightarrow> length scored = length trs"
  by (induction trs arbitrary: scored) (auto split: sum.splits)

lemma top_tracks_nonempty:
  "xs \<noteq> [] \<Longrightarrow> take (max 1 (length (sort_key f xs) div 3)) (sort_key f xs) \<noteq> []"
  by (cases "sort_key f xs") (auto simp: max_def dest: arg_cong [where f = length])

lemma select_top_returns:
  assumes "scored \<noteq> []"
  shows "\<exists>tr rs'. select_top scored rs = (Inr tr, rs')"
proof -
  define top where
    "top = take (max 1 (length (sort_key (\<lambda>p. - snd p) scored) div 3))
             (sort_key (\<lambda>p. - snd p) scored)"
  have ne: "top \<noteq> []" unfolding top_def using assms by (rule top_tracks_nonempty)
  have eq: "select_top scored rs =
              (if sum_list (map snd top) > 0
               then random_choices (map fst top) (map snd top) rs
               else (case top of [] \<Rightarrow> (Inl IndexError, rs) | p # ps \<Rightarrow> (Inr (fst p), rs)))"
    unfolding select_top_def Let_def top_def ..
  show ?thesis
  proof (cases "sum_list (map snd top) > 0")
    case True
    with random_choices_positive [of "map fst top" "map snd top" rs] ne eq
    show ?thesis by simp
  next
    case False
    with ne eq show ?thesis by (cases top) simp_all
  qed
qed

text \<open>
  The smart pull has three outcomes: empty when no main-queue track is
  available; the scorer's exception, with nothing changed; or a track, marked
  as played and recorded as the last played one.
\<close>

lemma get_next_smart_cases:
  "if available_tracks q = [] then get_next_smart f rs q = (Inr None, q, rs)
   else (\<exists>e. score_tracks f q (available_tracks q) = Inl e
              \<and> get_next_smart f rs q = (Inl e, q, rs))
      \<or> (\<exists>tr q' rs'. get_next_smart f rs q = (Inr (Some tr), q', rs')
            \<and> played_tracks q' = played_tracks (mark_as_played tr q)
            \<and> last_played_track q' = Some tr)"
proof (cases "available_tracks q = []")
  case True
  then show ?thesis by (simp add: get_next_smart_def)
next
  case False
  show ?thesis
  proof (cases "score_tracks f q (available_tracks q)")
    case (Inl e)
    with False show ?thesis by (simp add: get_next_smart_def)
  next
    case (Inr scored)
    from score_tracks_length [OF Inr] False have sne: "scored \<noteq> []" by auto
    from select_top_returns [OF sne, of rs]
    obtain tr rs' where pick: "select_top scored rs = (Inr tr, rs')" by blast
    have "get_next_smart f rs q =
            (Inr (Some tr), (mark_as_played tr q)\<lparr>last_played_track := Some tr\<rparr>, rs')"
      using False Inr pick by (simp add: get_next_smart_def)
    with False show ?thesis by simp
  qed
qed

lemma get_next_mood_based_cases:
  "if available_tracks q = [] then get_next_mood_based f rs q = (Inr None, q, rs)
   else (\<exists>e. score_tracks f q (available_tracks q) = Inl e
              \<and> get_next_mood_based f rs q = (Inl e, q, rs))
      \<or> (\<exists>tr q' rs'. get_next_mood_based f rs q = (Inr (Some tr), q', rs')
            \<and> played_tracks q' = played_tracks (mark_as_played tr q)
            \<and> last_played_track q' = Some tr)"
proof (cases "available_tracks q = []")
  case True
  then show ?thesis by (simp add: get_next_mood_based_def)
next
  case False
  then have "get_next_mood_based f rs q = get_next_smart f rs q"
    by (simp add: get_next_mood_based_def)
  with get_next_smart_cases [of q f rs] False show ?thesis by simp
qed

lemma score_tracks_error:
  "score_tracks f q trs = Inl e \<Longrightarrow> \<exists>tr \<in> set trs. f tr = Inl e"
  by (induction trs) (auto split: sum.splits)

text \<open>
  The pull is not vacuous: when an entry is eligible and the scorer returns a
  score for every available main-queue track, the pull returns a track.
\<close>

lemma get_next_track_succeeds:
  assumes "has_eligible q"
      and "\<forall>tr \<in> set (available_tracks q). \<exists>s. f tr = Inr s"
  shows "\<exists>tr q' rs'. get_next_track f rs q = (Inr (Some tr), q', rs')"
proof (cases "priority_queue q")
  case (Cons tr rest)
  then show ?thesis by (simp add: get_next_track_def)
next
  case Nil
  have noerr: "score_tracks f q (available_tracks q) \<noteq> Inl e" for e
  proof
    assume "score_tracks f q (available_tracks q) = Inl e"
    from score_tracks_error [OF this]
    obtain tr where "tr \<in> set (available_tracks q)" "f tr = Inl e" by blast
    with assms(2) show False by force
  qed
  consider (seq) "shuffle_mode q = ''sequential''" | (rnd) "shuffle_mode q = ''random''"
    | (smart) "shuffle_mode q = ''smart''" | (mood) "shuffle_mode q = ''mood''"
    | (other) "shuffle_mode q \<notin> {''sequential'', ''random'', ''smart'', ''mood''}"
    by blast
  then show ?thesis
  proof cases
    case seq
    with Nil assms(1) get_next_sequential_cases [of q] show ?thesis
      by (auto simp: get_next_track_def has_eligible_def)
  next
    case rnd
    with Nil assms(1) get_next_random_cases [of q rs] show ?thesis
      by (auto simp: get_next_track_def has_eligible_def)
  next
    case smart
    with Nil assms(1) get_next_smart_cases [of q f rs] noerr show ?thesis
      by (auto simp: get_next_track_def has_eligible_def)
  next
    case mood
    with Nil assms(1) get_next_mood_based_cases [of q f rs] noerr show ?thesis
      by (auto simp: get_next_track_def has_eligible_def)
  next
    case other
    with Nil assms(1) show ?thesis by (auto simp: has_eligible_def)
  qed
qed

text \<open>
  C1, as the code has it. When no entry is eligible in any tier,
  \<^verbatim>\<open>get_next_track\<close> returns empty, without raising, and leaves the queue as it
  was. Every successful pull, from the priority queue or from the main queue
  under any mode, leaves the played set equal to the played set before plus the
  returned track's id when that id is a non-empty string (\<^verbatim>\<open>_mark_as_played\<close>
  skips a track whose id is missing or empty). A successful pull from the main
  queue in smart or mood mode sets \<^verbatim>\<open>last_played_track\<close> to the returned track;
  for a priority pull and for the sequential and random modes the statement
  says nothing about \<^verbatim>\<open>last_played_track\<close>. All of this holds for every scorer
  and every outcome of the random calls.
\<close>

theorem get_next_track_effects:
  assumes "get_next_track get_track_score rs q = (res, q', rs')"
  shows "(if has_eligible q then True else res = Inr None \<and> q' = q \<and> rs' = rs)
       \<and> (\<forall>tr. res = Inr (Some tr) \<longrightarrow>
            played_tracks q' =
              (case t_id tr of
                 None \<Rightarrow> played_tracks q
               | Some i \<Rightarrow> if i = [] then played_tracks q else insert i (played_tracks q))
            \<and> (if priority_queue q = [] \<and> shuffle_mode q \<in> {''smart'', ''mood''}
               then last_played_track q' = Some tr else True))"
proof (cases "priority_queue q")
  case (Cons tr rest)
  with assms show ?thesis
    by (auto simp: get_next_track_def has_eligible_def played_mark_as_played
        split: option.splits)
next
  case Nil
  consider (seq) "shuffle_mode q = ''sequential''" | (rnd) "shuffle_mode q = ''random''"
    | (smart) "shuffle_mode q = ''smart''" | (mood) "shuffle_mode q = ''mood''"
    | (other) "shuffle_mode q \<notin> {''sequential'', ''random'', ''smart'', ''mood''}"
    by blast
  then show ?thesis
  proof cases
    case seq
    with Nil assms get_next_sequential_cases [of q] show ?thesis
      by (auto simp: get_next_track_def has_eligible_def played_mark_as_played
          split: if_splits prod.splits)
  next
    case rnd
    with Nil assms get_next_random_cases [of q rs] show ?thesis
      by (auto simp: get_next_track_def has_eligible_def played_mark_as_played
          split: if_splits)
  next
    case smart
    with Nil assms get_next_smart_cases [of q get_track_score rs] show ?thesis
      by (auto simp: get_next_track_def has_eligible_def played_mark_as_played
          split: if_splits)
  next
    case mood
    with Nil assms get_next_mood_based_cases [of q get_track_score rs] show ?thesis
      by (auto simp: get_next_track_def has_eligible_def played_mark_as_played
          split: if_splits)
  next
    case other
    with Nil assms show ?thesis
      by (auto simp: get_next_track_def has_eligible_def)
  qed
qed

theorem get_next_track_effects_witness:
  "has_eligible single_track_queue
   \<and> fst (get_next_track example_scorer [] single_track_queue)
       = Inr (Some (example_track ''a'' ''X''))
   \<and> played_tracks (fst (snd (get_next_track example_scorer [] single_track_queue))) = {''a''}
   \<and> last_played_track (fst (snd (get_next_track example_scorer [] single_track_queue)))
       = Some (example_track ''a'' ''X'')
   \<and> (if has_eligible init_queue then True
      else get_next_track example_scorer [] init_queue = (Inr None, init_queue, []))"
proof -
  have e: "get_next_track example_scorer [] single_track_queue =
           (fst (get_next_track example_scorer [] single_track_queue),
            fst (snd (get_next_track example_scorer [] single_track_queue)),
            snd (snd (get_next_track example_scorer [] single_track_queue)))"
    by simp
  have a: "has_eligible single_track_queue" by code_simp
  have b: "priority_queue single_track_queue = []" "shuffle_mode single_track_queue = ''smart''"
    "played_tracks single_track_queue = {}"
    by (simp_all add: single_track_queue_def init_queue_def)
  have c: "fst (get_next_track example_scorer [] single_track_queue)
             = Inr (Some (example_track ''a'' ''X''))"
    by code_simp
  have d: "t_id (example_track ''a'' ''X'') = Some ''a''"
    by (simp add: example_track_def)
  have e0: "get_next_track example_scorer [] init_queue =
           (fst (get_next_track example_scorer [] init_queue),
            fst (snd (get_next_track example_scorer [] init_queue)),
            snd (snd (get_next_track example_scorer [] init_queue)))"
    by simp
  have n: "\<not> has_eligible init_queue" by code_simp
  from get_next_track_effects [OF e0] n
  have z: "get_next_track example_scorer [] init_queue = (Inr None, init_queue, [])"
    using e0 by simp
  from get_next_track_effects [OF e] a b c d z n show ?thesis by auto
qed

text \<open>
  C1 as stated asks that every successful pull puts the returned track's id in
  the played set and makes the returned track the last played one. A pull of the
  priority track with the empty id returns it, leaves the played set empty and
  leaves \<^verbatim>\<open>last_played_track\<close> unset.
\<close>

theorem get_next_track_priority_counterexample:
  "fst (get_next_track example_scorer [] priority_example_queue)
     = Inr (Some (example_track [] ''X''))
   \<and> t_id (example_track [] ''X'') = Some []
   \<and> played_tracks (fst (snd (get_next_track example_scorer [] priority_example_queue))) = {}
   \<and> last_played_track (fst (snd (get_next_track example_scorer [] priority_example_queue)))
       = None"
  by code_simp

section \<open>Skips and plays in the listening history\<close>

lemma artist_of_SomeD:
  "artist_of tr = Some a \<Longrightarrow> \<exists>m. t_metadata tr = Some m \<and> artist m = a \<and> a \<noteq> []"
  by (auto simp: artist_of_def split: option.splits if_splits)

lemma record_skip_known:
  assumes "t_id tr = Some i" "i \<noteq> []" "h_tracks h i = Some td"
      and "artist_of tr = Some a" "h_artists h a = Some ad"
      and "skip_ratio tr time_played < skip_threshold (h_preferences h)"
  shows "h_artists (record_skip tr time_played h) =
           (h_artists h)(a \<mapsto> ad\<lparr>preference_score := max 0 (preference_score ad - 0.02)\<rparr>)"
  using assms by (simp add: record_skip_def Let_def)

lemma record_play_known:
  assumes "t_id tr = Some i" "i \<noteq> []"
      and "artist_of tr = Some a" "h_artists h a = Some ad"
  shows "h_artists (record_play current_time tr dp h) =
           (h_artists h)(a \<mapsto> ad\<lparr>artist_play_count := artist_play_count ad + 1,
                                   preference_score := min 1 (preference_score ad + 0.01)\<rparr>)"
proof -
  from artist_of_SomeD [OF assms(3)]
  obtain m where m: "t_metadata tr = Some m" "artist m = a" "a \<noteq> []"
    by blast
  with assms show ?thesis by (simp add: record_play_def Let_def)
qed

text \<open>
  C8, as the code has it. Take a track with a non-empty id that is already in
  the track history, whose artist is already in the artist history with a
  preference \<open>s\<close> above 0.01 and at most 1, and a skip whose ratio is below the
  threshold. Then \<^verbatim>\<open>record_skip\<close> lowers the preference to \<open>max 0 (s - 0.02)\<close>,
  strictly below \<open>s\<close>; the following \<^verbatim>\<open>record_play\<close> raises it by exactly 0.01,
  to a value that is at most 1 and still strictly below \<open>s\<close>.
\<close>

theorem skip_then_play_preference:
  assumes "t_id tr = Some i" and "i \<noteq> []" and "h_tracks h i = Some td"
      and "artist_of tr = Some a" and "h_artists h a = Some ad"
      and "skip_ratio tr time_played < skip_threshold (h_preferences h)"
      and "0.01 < preference_score ad" and "preference_score ad \<le> 1"
  shows "get_artist_preference h a = preference_score ad
       \<and> get_artist_preference (record_skip tr time_played h) a
           = max 0 (preference_score ad - 0.02)
       \<and> get_artist_preference (record_skip tr time_played h) a < preference_score ad
       \<and> get_artist_preference (record_play current_time tr dp (record_skip tr time_played h)) a
           = get_artist_preference (record_skip tr time_played h) a + 0.01
       \<and> get_artist_preference (record_play current_time tr dp (record_skip tr time_played h)) a \<le> 1
       \<and> get_artist_preference (record_play current_time tr dp (record_skip tr time_played h)) a
           < preference_score ad"
proof -
  from artist_of_SomeD [OF assms(4)] have ne: "a \<noteq> []" by blast
  let ?h1 = "record_skip tr time_played h"
  let ?ad1 = "ad\<lparr>preference_score := max 0 (preference_score ad - 0.02)\<rparr>"
  have s1: "h_artists ?h1 = (h_artists h)(a \<mapsto> ?ad1)"
    using assms(1-6) by (rule record_skip_known)
  then have l1: "h_artists ?h1 a = Some ?ad1" by simp
  have s2: "h_artists (record_play current_time tr dp ?h1) a =
              Some (?ad1\<lparr>artist_play_count := artist_play_count ?ad1 + 1,
                         preference_score := min 1 (preference_score ?ad1 + 0.01)\<rparr>)"
    using record_play_known [OF assms(1,2,4) l1, of current_time dp] by simp
  have p0: "get_artist_preference h a = preference_score ad"
    using ne assms(5) by (simp add: get_artist_preference_def)
  have p1: "get_artist_preference ?h1 a = max 0 (preference_score ad - 0.02)"
    using ne l1 by (simp add: get_artist_preference_def)
  have p2: "get_artist_preference (record_play current_time tr dp ?h1) a
              = min 1 (max 0 (preference_score ad - 0.02) + 0.01)"
    using ne s2 by (simp add: get_artist_preference_def)
  show ?thesis
    unfolding p0 p1 p2 using assms(7,8) by (auto simp: max_def min_def)
qed

theorem skip_then_play_preference_witness:
  "get_artist_preference played_history ''X'' = 0.51
   \<and> get_artist_preference (record_skip (example_track ''a'' ''X'') 10 played_history) ''X'' = 0.49
   \<and> get_artist_preference
        (record_play 7 (example_track ''a'' ''X'') None
           (record_skip (example_track ''a'' ''X'') 10 played_history)) ''X'' = 0.5"
proof -
  have a: "t_id (example_track ''a'' ''X'') = Some ''a''" "''a'' \<noteq> []"
    by (simp_all add: example_track_def)
  have b: "h_tracks played_history ''a'' =
             Some \<lparr>play_count = 1, skip_count = 0, last_played = 0,
                   total_duration_played = 0, td_title = ''a'', td_artist = ''X''\<rparr>"
    by code_simp
  have c: "artist_of (example_track ''a'' ''X'') = Some ''X''"
    by (simp add: artist_of_def example_track_def)
  have d: "h_artists played_history ''X'' = Some \<lparr>artist_play_count = 1, preference_score = 0.51\<rparr>"
    by code_simp
  have e: "skip_ratio (example_track ''a'' ''X'') 10 < skip_threshold (h_preferences played_history)"
    by code_simp
  have f: "0.01 < preference_score \<lparr>artist_play_count = 1, preference_score = 0.51\<rparr>"
    "preference_score \<lparr>artist_play_count = 1, preference_score = 0.51\<rparr> \<le> 1"
    by simp_all
  from skip_then_play_preference [OF a b c d e f, of 7 None] show ?thesis by simp
qed

text \<open>
  C8 as stated holds for every starting history. In the history reached by one
  play and 26 early skips the artist's preference is at the lower clamp 0: one
  more early skip leaves it at 0, not strictly lower, and the following play
  raises it to 0.01, above where it started. On the fresh
  history, where neither the track nor the artist is recorded, the skip changes
  nothing and the following play moves the preference from the default 0.5 to
  0.51.
\<close>

theorem skip_then_play_counterexample:
  "get_artist_preference floor_history ''X'' = 0
   \<and> get_artist_preference (record_skip (example_track ''a'' ''X'') 0 floor_history) ''X'' = 0
   \<and> get_artist_preference
        (record_play 7 (example_track ''a'' ''X'') None
           (record_skip (example_track ''a'' ''X'') 0 floor_history)) ''X'' = 0.01
   \<and> get_artist_preference init_history ''X'' = 0.5
   \<and> get_artist_preference (record_skip (example_track ''a'' ''X'') 0 init_history) ''X'' = 0.5
   \<and> get_artist_preference
        (record_play 7 (example_track ''a'' ''X'') None
           (record_skip (example_track ''a'' ''X'') 0 init_history)) ''X'' = 0.51"
  by code_simp

section \<open>The discovery worker and the health check\<close>

lemma discovery_worker_pass_empty:
  "discovery_queue (fst s) = [] \<Longrightarrow> discovery_worker_pass perform s = s"
  by (simp add: discovery_worker_pass_def)

lemma discovery_worker_empty:
  "discovery_queue (fst s) = [] \<Longrightarrow> discovery_worker perform n s = s"
  by (induction n) (simp_all add: discovery_worker_pass_empty)

text \<open>
  C2: what the code does. \<^verbatim>\<open>_check_queue_health\<close>, had it been called at a time
  when the rate limit allows a trigger and fewer than 3 tracks are queued, would
  put \<open>periodic_check\<close> on an empty trigger channel; when more tracks are queued
  or the rate limit forbids it, it leaves the channel empty. The worker loop
  never calls it: from an empty trigger channel, any number of passes of the
  loop, with any discovery procedure, leaves the scheduler and the queue exactly
  as they were, so no trigger is enqueued and the main queue is not populated.
\<close>

theorem health_check_never_runs:
  assumes "discovery_queue d = []"
  shows "discovery_worker perform n (d, q) = (d, q)
       \<and> (if total_tracks q < 3 \<and> min_discovery_interval d \<le> now - last_discovery_time d
          then discovery_queue (check_queue_health now q d) = [''periodic_check'']
          else discovery_queue (check_queue_health now q d) = [])"
  using assms discovery_worker_empty [of "(d, q)" perform n]
  by (simp add: check_queue_health_def trigger_discovery_def Let_def discovery_queue_maxsize_def)

theorem health_check_never_runs_witness:
  "discovery_queue started_discovery = []
   \<and> total_tracks init_queue = 0
   \<and> seed_tracks started_discovery = []
   \<and> discovery_worker (\<lambda>reason s. s) 1000 (started_discovery, init_queue)
       = (started_discovery, init_queue)
   \<and> discovery_queue (check_queue_health 100 init_queue started_discovery)
       = [''periodic_check'']"
proof -
  have a: "discovery_queue started_discovery = []"
    by (simp add: started_discovery_def init_discovery_def)
  have b: "total_tracks init_queue = 0"
    by (simp add: total_tracks_def init_queue_def)
  have c: "min_discovery_interval started_discovery = 10"
    "last_discovery_time started_discovery = 0" "seed_tracks started_discovery = []"
    by (simp_all add: started_discovery_def init_discovery_def)
  from health_check_never_runs [OF a, of "\<lambda>reason s. s" 1000 init_queue 100] a b c
  show ?thesis by simp
qed

section \<open>Rate limiting of triggers\<close>








section \<open>Unknown shuffle modes and rate levels\<close>

text \<open>
  C9, as the code has it. \<^verbatim>\<open>set_shuffle_mode\<close> with a string outside the four
  modes returns normally and leaves the queue (its shuffle mode included)
  unchanged; \<^verbatim>\<open>adjust_discovery_rate\<close> with a string outside the three levels
  leaves the scheduler (target size, batch size and minimum interval included)
  unchanged and prints the same confirmation line as for a known level. Neither
  raises or returns anything that tells the caller the argument was refused.
\<close>

theorem unknown_mode_and_rate_ignored:
  assumes "mode \<notin> {''smart'', ''random'', ''sequential'', ''mood''}"
      and "rate \<notin> {''conservative'', ''moderate'', ''aggressive''}"
  shows "set_shuffle_mode rs mode q = Some (q, rs)
       \<and> adjust_discovery_rate rate d = (d, ''Discovery rate set to '' @ rate)"
  using assms by (simp add: set_shuffle_mode_def adjust_discovery_rate_def)

theorem unknown_mode_and_rate_ignored_witness:
  "''bogus'' \<notin> {''smart'', ''random'', ''sequential'', ''mood''}
   \<and> ''bogus'' \<notin> {''conservative'', ''moderate'', ''aggressive''}
   \<and> set_shuffle_mode [] ''bogus'' example_queue = Some (example_queue, [])
   \<and> adjust_discovery_rate ''bogus'' init_discovery
       = (init_discovery, ''Discovery rate set to '' @ ''bogus'')"
proof -
  have a: "''bogus'' \<notin> {''smart'', ''random'', ''sequential'', ''mood''}" by simp
  have b: "''bogus'' \<notin> {''conservative'', ''moderate'', ''aggressive''}" by simp
  note c = unknown_mode_and_rate_ignored [OF a b, of "[]" example_queue init_discovery]
  show ?thesis
    using a b c [THEN conjunct1] c [THEN conjunct2] by (intro conjI)
qed

text \<open>
  C9 as stated asks for a clear invalid-argument signal. The call with the
  unknown mode has the same outcome as the call with the valid mode the queue
  is already in, and the call with the unknown rate has the same outcome as the
  call with the valid rate the scheduler is already at, up to the rate string
  echoed in the confirmation line.
\<close>

theorem unknown_mode_and_rate_counterexample:
  "set_shuffle_mode [] ''bogus'' example_queue = Some (example_queue, [])
   \<and> set_shuffle_mode [] ''sequential'' example_queue = Some (example_queue, [])
   \<and> adjust_discovery_rate ''bogus'' init_discovery
       = (init_discovery, ''Discovery rate set to bogus'')
   \<and> adjust_discovery_rate ''moderate'' init_discovery
       = (init_discovery, ''Discovery rate set to moderate'')"
  by (simp add: set_shuffle_mode_def adjust_discovery_rate_def example_queue_def
      init_queue_def init_discovery_def)

section \<open>The smart reshuffle is a permutation\<close>

lemma pool_simps [simp]: "pool [] = {#}" "pool ((a, dq) # aq) = mset dq + pool aq"
  by (simp_all add: pool_def)

lemma randbelow_less: "0 < n \<Longrightarrow> fst (randbelow n rs) < n"
  by (simp add: randbelow_def next_draw_def split: list.splits)

lemma shuffle_loop_mset:
  "n < length xs \<or> n = 0 \<Longrightarrow> mset (fst (shuffle_loop n xs rs)) = mset xs"
proof (induction n arbitrary: xs rs)
  case 0
  then show ?case by simp
next
  case (Suc i)
  then have len: "Suc i < length xs" by simp
  obtain j rs' where r: "randbelow (Suc (Suc i)) rs = (j, rs')" by (cases "randbelow (Suc (Suc i)) rs")
  from randbelow_less [of "Suc (Suc i)" rs] r have "j < Suc (Suc i)" by simp
  with len have j: "j < length xs" by simp
  let ?ys = "xs[Suc i := xs ! j, j := xs ! Suc i]"
  have "mset ?ys = mset xs" using mset_swap [OF j len] .
  moreover have "i < length ?ys \<or> i = 0" using len by simp
  ultimately show ?case using Suc.IH [of ?ys rs'] r by simp
qed

lemma random_shuffle_mset: "mset (fst (random_shuffle xs rs)) = mset xs"
  unfolding random_shuffle_def by (rule shuffle_loop_mset) (cases xs; simp)

lemma random_shuffle_nonempty: "xs \<noteq> [] \<Longrightarrow> fst (random_shuffle xs rs) \<noteq> []"
  using random_shuffle_mset [of xs rs] by (metis mset_zero_iff)

lemma shuffle_groups_props:
  "map fst (fst (shuffle_groups gs rs)) = map fst gs
   \<and> pool (fst (shuffle_groups gs rs)) = pool gs
   \<and> ((\<forall>p \<in> set gs. snd p \<noteq> []) \<longrightarrow> (\<forall>p \<in> set (fst (shuffle_groups gs rs)). snd p \<noteq> []))"
proof (induction gs arbitrary: rs)
  case Nil
  then show ?case by simp
next
  case (Cons g gs)
  obtain a ts where g: "g = (a, ts)" by (cases g)
  obtain ts' rs1 where s: "random_shuffle ts rs = (ts', rs1)" by (cases "random_shuffle ts rs")
  obtain gs' rs2 where t: "shuffle_groups gs rs1 = (gs', rs2)" by (cases "shuffle_groups gs rs1")
  from random_shuffle_mset [of ts rs] s have m: "mset ts' = mset ts" by simp
  from random_shuffle_nonempty [of ts rs] s have n: "ts \<noteq> [] \<Longrightarrow> ts' \<noteq> []" by simp
  from Cons.IH [of rs1] t show ?case using g s m n by auto
qed

lemma shuffle_groups_good:
  "queues_ok gs \<Longrightarrow> queues_ok (fst (shuffle_groups gs rs))"
  using shuffle_groups_props [of gs rs] by (simp add: queues_ok_def)

lemma group_add_keys: "fst ` set (group_add a tr gs) = insert a (fst ` set gs)"
proof (induction gs)
  case Nil
  then show ?case by simp
next
  case (Cons g gs)
  obtain b ts where g: "g = (b, ts)" by (cases g)
  show ?case
  proof (cases "a = b")
    case True
    then show ?thesis by (simp add: g)
  next
    case False
    then show ?thesis using Cons.IH by (simp add: g insert_commute)
  qed
qed

lemma group_add_distinct: "distinct (map fst gs) \<Longrightarrow> distinct (map fst (group_add a tr gs))"
proof (induction gs)
  case Nil
  then show ?case by simp
next
  case (Cons g gs)
  obtain b ts where g: "g = (b, ts)" by (cases g)
  show ?case
  proof (cases "a = b")
    case True
    then show ?thesis using Cons.prems by (simp add: g)
  next
    case False
    then show ?thesis using Cons by (simp add: g group_add_keys)
  qed
qed

lemma group_add_pool: "pool (group_add a tr gs) = add_mset tr (pool gs)"
proof (induction gs)
  case Nil
  then show ?case by simp
next
  case (Cons g gs)
  obtain b ts where g: "g = (b, ts)" by (cases g)
  show ?case using Cons.IH by (cases "a = b") (simp_all add: g)
qed

lemma group_add_nonempty:
  "\<forall>p \<in> set gs. snd p \<noteq> [] \<Longrightarrow> \<forall>p \<in> set (group_add a tr gs). snd p \<noteq> []"
proof (induction gs)
  case Nil
  then show ?case by simp
next
  case (Cons g gs)
  obtain b ts where g: "g = (b, ts)" by (cases g)
  show ?case using Cons by (cases "a = b") (simp_all add: g)
qed

lemma group_add_good: "queues_ok gs \<Longrightarrow> queues_ok (group_add a tr gs)"
  using group_add_nonempty [of gs a tr] group_add_distinct [of gs a tr] by (simp add: queues_ok_def)

lemma group_fold_props:
  "queues_ok gs \<Longrightarrow>
   queues_ok (fst (fold (\<lambda>tr (artist_groups, no_artist).
             case artist_of tr of
               Some a \<Rightarrow> (group_add a tr artist_groups, no_artist)
             | None \<Rightarrow> (artist_groups, no_artist @ [tr])) main (gs, na)))
   \<and> pool (fst (fold (\<lambda>tr (artist_groups, no_artist).
             case artist_of tr of
               Some a \<Rightarrow> (group_add a tr artist_groups, no_artist)
             | None \<Rightarrow> (artist_groups, no_artist @ [tr])) main (gs, na)))
     + mset (snd (fold (\<lambda>tr (artist_groups, no_artist).
             case artist_of tr of
               Some a \<Rightarrow> (group_add a tr artist_groups, no_artist)
             | None \<Rightarrow> (artist_groups, no_artist @ [tr])) main (gs, na)))
     = pool gs + mset na + mset main"
proof (induction main arbitrary: gs na)
  case Nil
  then show ?case by simp
next
  case (Cons tr main)
  show ?case
  proof (cases "artist_of tr")
    case None
    with Cons.IH [OF Cons.prems, of "na @ [tr]"] show ?thesis by simp
  next
    case (Some a)
    with Cons.IH [OF group_add_good [OF Cons.prems, of a tr], of na]
    show ?thesis by (simp add: group_add_pool)
  qed
qed

lemma group_tracks_props:
  "queues_ok (fst (group_tracks main))
   \<and> pool (fst (group_tracks main)) + mset (snd (group_tracks main)) = mset main"
  using group_fold_props [of "[]" main "[]"] by (simp add: group_tracks_def queues_ok_def)

lemma filter_other_keys:
  "c \<notin> fst ` set aq \<Longrightarrow> filter (\<lambda>(a, d). a \<noteq> c) aq = aq"
  by (induction aq) auto

lemma update_other_keys:
  "c \<notin> fst ` set aq \<Longrightarrow> map (\<lambda>(a, d). if a = c then (a, rest) else (a, d)) aq = aq"
  by (induction aq) auto

lemma pool_remove:
  "distinct (map fst aq) \<Longrightarrow> (c, dq) \<in> set aq \<Longrightarrow>
   pool aq = mset dq + pool (filter (\<lambda>(a, d). a \<noteq> c) aq)"
proof (induction aq)
  case Nil
  then show ?case by simp
next
  case (Cons g aq)
  obtain b ts where g: "g = (b, ts)" by (cases g)
  show ?case
  proof (cases "b = c")
    case True
    with Cons.prems g have notin: "c \<notin> fst ` set aq" by auto
    with Cons.prems g True have "dq = ts" by (auto simp: image_iff)
    with True g notin show ?thesis by (simp add: filter_other_keys)
  next
    case False
    with Cons g show ?thesis by auto
  qed
qed

lemma pool_update:
  "distinct (map fst aq) \<Longrightarrow> (c, dq) \<in> set aq \<Longrightarrow>
   pool (map (\<lambda>(a, d). if a = c then (a, rest) else (a, d)) aq)
     = mset rest + pool (filter (\<lambda>(a, d). a \<noteq> c) aq)"
proof (induction aq)
  case Nil
  then show ?case by simp
next
  case (Cons g aq)
  obtain b ts where g: "g = (b, ts)" by (cases g)
  show ?case
  proof (cases "b = c")
    case True
    with Cons.prems g have notin: "c \<notin> fst ` set aq" by auto
    with True g show ?thesis by (simp add: filter_other_keys update_other_keys)
  next
    case False
    with Cons g show ?thesis by auto
  qed
qed

lemma keys_update:
  "map fst (map (\<lambda>(a, d). if a = c then (a, rest) else (a, d)) aq) = map fst aq"
  by (induction aq) auto

lemma good_filter: "queues_ok aq \<Longrightarrow> queues_ok (filter (\<lambda>(a, d). a \<noteq> c) aq)"
  by (auto simp: queues_ok_def distinct_map_filter)

lemma good_update:
  "queues_ok aq \<Longrightarrow> rest \<noteq> [] \<Longrightarrow>
   queues_ok (map (\<lambda>(a, d). if a = c then (a, rest) else (a, d)) aq)"
  by (auto simp: queues_ok_def keys_update simp del: map_map split: if_splits)

lemma filter_nonempty_good: "queues_ok aq \<Longrightarrow> filter (\<lambda>(a, dq). dq \<noteq> []) aq = aq"
  by (induction aq) (auto simp: queues_ok_def)

lemma take_from_artist_step:
  assumes g: "queues_ok aq" and ne: "aq \<noteq> []"
  shows "\<exists>aq1 tr rs1. take_from_artist aq sh rs = (aq1, sh @ [tr], rs1)
           \<and> queues_ok aq1 \<and> pool aq = add_mset tr (pool aq1)"
proof -
  obtain k rs1 where r: "randbelow (length aq) rs = (k, rs1)" by (cases "randbelow (length aq) rs")
  from randbelow_less [of "length aq" rs] ne r have k: "k < length aq" by simp
  define c where "c = map fst aq ! k"
  define dq where "dq = snd (aq ! k)"
  from k have mem: "(c, dq) \<in> set aq"
    by (simp add: c_def dq_def) 
  from g have d: "distinct (map fst aq)" by (simp add: queues_ok_def)
  from mem d have look: "map_of aq c = Some dq" by simp
  from g mem have "dq \<noteq> []" by (auto simp: queues_ok_def)
  then obtain tr rest where dq: "dq = tr # rest" by (cases dq) auto
  have f: "filter (\<lambda>(a, dq). dq \<noteq> []) aq = aq" using g by (rule filter_nonempty_good)
  have res: "take_from_artist aq sh rs =
     ((if rest = [] then filter (\<lambda>(a, dq). a \<noteq> c) aq
       else map (\<lambda>(a, dq). if a = c then (a, rest) else (a, dq)) aq), sh @ [tr], rs1)"
    using ne r look dq by (simp add: take_from_artist_def f c_def [symmetric])
  show ?thesis
  proof (cases "rest = []")
    case True
    with res pool_remove [OF d mem] good_filter [OF g, of c] dq show ?thesis by simp
  next
    case False
    with res pool_remove [OF d mem] pool_update [OF d mem, of rest] good_update [OF g False, of c] dq
    show ?thesis by simp
  qed
qed

lemma take_from_artist_empty: "take_from_artist [] sh rs = ([], sh, rs)"
  by (simp add: take_from_artist_def)

lemma take_no_artist_props:
  "\<exists>na2 sh2 rs2. take_no_artist aq na sh rs = (na2, sh2, rs2)
     \<and> mset na2 + mset sh2 = mset na + mset sh
     \<and> length na2 \<le> length na
     \<and> (aq = [] \<and> na \<noteq> [] \<longrightarrow> length na2 < length na)"
proof (cases "na = []")
  case True
  then show ?thesis by (simp add: take_no_artist_def)
next
  case False
  then have m: "mset (butlast na) + mset (sh @ [last na]) = mset na + mset sh"
    by (induction na) auto
  show ?thesis using False m
    by (auto simp: take_no_artist_def split: prod.splits)
qed

lemma interleave_returns:
  "queues_ok aq \<Longrightarrow> n = size (pool aq) + length na \<Longrightarrow>
   \<exists>sh' rs'. interleave aq na sh rs = Some (sh', rs')
      \<and> mset sh' = mset sh + pool aq + mset na"
proof (induction n arbitrary: aq na sh rs rule: less_induct)
  case (less n)
  show ?case
  proof (cases "aq = [] \<and> na = []")
    case True
    then show ?thesis by (subst interleave.simps) simp
  next
    case False
    have "\<exists>aq1 sh1 rs1. take_from_artist aq sh rs = (aq1, sh1, rs1) \<and> queues_ok aq1
            \<and> mset sh1 + pool aq1 = mset sh + pool aq
            \<and> size (pool aq1) \<le> size (pool aq)
            \<and> (aq \<noteq> [] \<longrightarrow> size (pool aq1) < size (pool aq))
            \<and> (aq = [] \<longrightarrow> aq1 = [])"
    proof (cases "aq = []")
      case True
      then show ?thesis using less.prems(1) by (simp add: take_from_artist_empty)
    next
      case ne: False
      from take_from_artist_step [OF less.prems(1) ne, of sh rs]
      obtain aq1 tr rs1 where "take_from_artist aq sh rs = (aq1, sh @ [tr], rs1)"
        "queues_ok aq1" "pool aq = add_mset tr (pool aq1)" by blast
      then show ?thesis using ne by simp
    qed
    then obtain aq1 sh1 rs1 where t1: "take_from_artist aq sh rs = (aq1, sh1, rs1)"
      and g1: "queues_ok aq1" and m1: "mset sh1 + pool aq1 = mset sh + pool aq"
      and s1: "size (pool aq1) \<le> size (pool aq)"
      and s1': "aq \<noteq> [] \<longrightarrow> size (pool aq1) < size (pool aq)"
      and e1: "aq = [] \<longrightarrow> aq1 = []" by blast
    from take_no_artist_props [of aq1 na sh1 rs1]
    obtain na2 sh2 rs2 where t2: "take_no_artist aq1 na sh1 rs1 = (na2, sh2, rs2)"
      and m2: "mset na2 + mset sh2 = mset na + mset sh1"
      and s2: "length na2 \<le> length na"
      and s2': "aq1 = [] \<and> na \<noteq> [] \<longrightarrow> length na2 < length na" by blast
    have step: "interleave aq na sh rs = interleave aq1 na2 sh2 rs2"
      using False t1 t2 by (subst interleave.simps) auto
    have dec: "size (pool aq1) + length na2 < n"
      using less.prems(2) s1 s1' s2 s2' e1 False by (cases "aq = []") auto
    from less.IH [OF dec g1 refl, of sh2 rs2]
    obtain sh' rs' where r: "interleave aq1 na2 sh2 rs2 = Some (sh', rs')"
      and m: "mset sh' = mset sh2 + pool aq1 + mset na2" by blast
    have "mset sh' = mset sh + pool aq + mset na"
      using m m1 m2 by (metis (no_types, lifting) add.assoc add.commute)
    with r step show ?thesis by simp
  qed
qed

lemma smart_shuffle_perm:
  "\<exists>q' rs'. smart_shuffle rs q = Some (q', rs')
      \<and> mset (main_queue q') = mset (main_queue q)
      \<and> q' = q\<lparr>main_queue := main_queue q'\<rparr>"
proof (cases "length (main_queue q) < 3")
  case True
  then show ?thesis by (simp add: smart_shuffle_def)
next
  case False
  obtain groups na where g: "group_tracks (main_queue q) = (groups, na)"
    by (cases "group_tracks (main_queue q)")
  obtain aq rs1 where s: "shuffle_groups groups rs = (aq, rs1)"
    by (cases "shuffle_groups groups rs")
  from group_tracks_props [of "main_queue q"] g
  have gg: "queues_ok groups" and gm: "pool groups + mset na = mset (main_queue q)" by simp_all
  from shuffle_groups_good [OF gg, of rs] s have ga: "queues_ok aq" by simp
  from shuffle_groups_props [of groups rs] s have pa: "pool aq = pool groups" by simp
  from interleave_returns [OF ga refl, of na "[]" rs1]
  obtain sh rs2 where i: "interleave aq na [] rs1 = Some (sh, rs2)"
    and m: "mset sh = pool aq + mset na" by auto
  have "smart_shuffle rs q = Some (q\<lparr>main_queue := sh\<rparr>, rs2)"
    using False g s i by (simp add: smart_shuffle_def)
  with m pa gm show ?thesis by simp
qed

lemma reorganize_queue_perm:
  "\<exists>q' rs'. reorganize_queue rs q = Some (q', rs')
      \<and> mset (main_queue q') = mset (main_queue q)
      \<and> q' = q\<lparr>main_queue := main_queue q'\<rparr>"
  using smart_shuffle_perm [of rs q] by (simp add: reorganize_queue_def)

text \<open>
  C10. \<^verbatim>\<open>_smart_shuffle\<close> returns (its interleaving loop terminates) for every
  queue and every outcome of the random calls, the main queue afterwards holds
  exactly the tracks it held before, each as often as before, and the priority
  queue, the played set and the cursor are untouched. Hence \<^verbatim>\<open>add_tracks\<close>, in
  any mode, returns with the main queue a permutation of the old main queue
  extended by the new tracks (or of the old main queue, for a priority
  insertion), and with the played set and the cursor unchanged.
\<close>

theorem smart_reshuffle_is_permutation:
  "(\<exists>q' rs'. smart_shuffle rs q = Some (q', rs')
      \<and> mset (main_queue q') = mset (main_queue q)
      \<and> priority_queue q' = priority_queue q
      \<and> played_tracks q' = played_tracks q
      \<and> current_index q' = current_index q)
   \<and> (\<exists>q' rs'. add_tracks rs new_tracks priority q = Some (q', rs')
      \<and> mset (main_queue q') = mset (main_queue q) + (if priority then {#} else mset new_tracks)
      \<and> priority_queue q' = priority_queue q @ (if priority then new_tracks else [])
      \<and> played_tracks q' = played_tracks q
      \<and> current_index q' = current_index q)"
proof
  from smart_shuffle_perm [of rs q]
  obtain q' rs' where a: "smart_shuffle rs q = Some (q', rs')"
    "mset (main_queue q') = mset (main_queue q)" and b: "q' = q\<lparr>main_queue := main_queue q'\<rparr>"
    by blast
  from b have "priority_queue q' = priority_queue q \<and> played_tracks q' = played_tracks q
      \<and> current_index q' = current_index q"
    by (metis smart_queue.select_convs(1,3,4) smart_queue.surjective smart_queue.update_convs(2))
  with a show "\<exists>q' rs'. smart_shuffle rs q = Some (q', rs')
      \<and> mset (main_queue q') = mset (main_queue q)
      \<and> priority_queue q' = priority_queue q
      \<and> played_tracks q' = played_tracks q
      \<and> current_index q' = current_index q" by blast
next
  let ?q0 = "if priority then q\<lparr>priority_queue := priority_queue q @ new_tracks\<rparr>
        else q\<lparr>main_queue := main_queue q @ new_tracks\<rparr>"
  from reorganize_queue_perm [of rs ?q0]
  obtain q' rs' where a: "reorganize_queue rs ?q0 = Some (q', rs')"
    "mset (main_queue q') = mset (main_queue ?q0)" and b: "q' = ?q0\<lparr>main_queue := main_queue q'\<rparr>"
    by blast
  from b have "priority_queue q' = priority_queue ?q0 \<and> played_tracks q' = played_tracks ?q0
      \<and> current_index q' = current_index ?q0"
    by (metis smart_queue.select_convs(1,3,4) smart_queue.surjective smart_queue.update_convs(2))
  with a show "\<exists>q' rs'. add_tracks rs new_tracks priority q = Some (q', rs')
      \<and> mset (main_queue q') = mset (main_queue q) + (if priority then {#} else mset new_tracks)
      \<and> priority_queue q' = priority_queue q @ (if priority then new_tracks else [])
      \<and> played_tracks q' = played_tracks q
      \<and> current_index q' = current_index q"
    by (cases priority) (auto simp: add_tracks_def)
qed

theorem smart_reshuffle_is_permutation_witness:
  "map_option (map t_id \<circ> main_queue \<circ> fst) (smart_shuffle [1, 0, 3] shuffle_example_queue)
     = Some [Some ''a'', Some ''c'', Some ''d'', Some ''b'']
   \<and> (\<exists>q' rs'. smart_shuffle [1, 0, 3] shuffle_example_queue = Some (q', rs')
      \<and> mset (main_queue q') = mset (main_queue shuffle_example_queue)
      \<and> priority_queue q' = priority_queue shuffle_example_queue
      \<and> played_tracks q' = played_tracks shuffle_example_queue
      \<and> current_index q' = current_index shuffle_example_queue)"
proof -
  have a: "map_option (map t_id \<circ> main_queue \<circ> fst)
             (smart_shuffle [1, 0, 3] shuffle_example_queue)
           = Some [Some ''a'', Some ''c'', Some ''d'', Some ''b'']"
    by code_simp
  note b = smart_reshuffle_is_permutation
    [of "[1, 0, 3]" shuffle_example_queue "[]" False, THEN conjunct1]
  show ?thesis using a b by (intro conjI)
qed

end
